theory Spec2Isabelle
  imports Complex_Main "HOL-Library.Char_ord" "HOL-Library.List_Lexorder" "HOL-Library.Log_Nat"
begin

section \<open>The entity store\<close>

text \<open>
  The four tables of \<^verbatim>\<open>migrations.js\<close> (\<^verbatim>\<open>runMigrations\<close>), one record per row, each
  table a list of rows in insertion order. Identifiers are TEXT (uuid strings), owner
  references are the INTEGER ids of the users table and \<^verbatim>\<open>is_vip\<close> is an INTEGER column
  (0 or 1). The column \<^verbatim>\<open>max_capacity\<close> is declared INTEGER and is nullable, but the
  server stores whatever number the creation request carries and SQLite keeps a number
  that is not whole as it is (1.5 stays 1.5), so the column holds a rational here. The
  columns \<^verbatim>\<open>created_at\<close> and \<^verbatim>\<open>updated_at\<close> are never read by the operations below
  and are left out.
\<close>

record workshop =
  w_id :: string
  w_name :: string
  w_description :: "string option"
  w_date :: string
  w_location :: string
  w_user_id :: "nat option"
  w_is_vip :: int
  w_max_capacity :: "rat option"

record guest =
  g_id :: string
  g_name :: string
  g_email :: string
  g_qr_code :: string
  g_user_id :: "nat option"
  g_is_vip :: int

record attendance_row =
  a_id :: string
  a_workshop_id :: string
  a_guest_id :: string
  a_timestamp :: string
  a_created_by :: "nat option"

record vip_row =
  v_id :: string
  v_guest_id :: string
  v_workshop_id :: string

text \<open>
  The connection of \<^verbatim>\<open>database.js\<close>: its tables and its \<^verbatim>\<open>foreign_keys\<close> pragma.
  \<^verbatim>\<open>database.js\<close> opens its own connection and never sets the pragma (only the
  migration scripts do, each on a connection of its own), so whether the FOREIGN KEY
  clauses of the schema are enforced is the default of the SQLite build; it is a field of
  the store that no operation changes.
\<close>

record store =
  foreign_keys :: bool
  workshops :: "workshop list"
  guests :: "guest list"
  attendance :: "attendance_row list"
  vip_access :: "vip_row list"

text \<open>What a request brings from outside: the uuid drawn for a new row and the clock.\<close>

record env =
  new_id :: string
  now :: string

text \<open>The authenticated caller (\<^verbatim>\<open>req.userId\<close>, \<^verbatim>\<open>req.user.role\<close>).\<close>

record user =
  u_id :: nat
  u_role :: string

text \<open>An HTTP response: the status code with its JSON payload, or with its error message.\<close>

datatype 'a response = Ok nat 'a | Err nat string

subsection \<open>JavaScript truthiness\<close>

definition truthy_id :: "nat option \<Rightarrow> bool" where
  "truthy_id u = (case u of None \<Rightarrow> False | Some n \<Rightarrow> n \<noteq> 0)"

definition truthy_str :: "string option \<Rightarrow> bool" where
  "truthy_str s = (case s of None \<Rightarrow> False | Some t \<Rightarrow> t \<noteq> [])"

definition truthy_num :: "'a::zero option \<Rightarrow> bool" where
  "truthy_num c = (case c of None \<Rightarrow> False | Some k \<Rightarrow> k \<noteq> 0)"

definition str_of :: "string option \<Rightarrow> string" where
  "str_of s = (case s of None \<Rightarrow> [] | Some t \<Rightarrow> t)"

definition num_of :: "'a::zero option \<Rightarrow> 'a" where
  "num_of c = (case c of None \<Rightarrow> 0 | Some k \<Rightarrow> k)"

definition js_or :: "'a::zero option \<Rightarrow> 'a option \<Rightarrow> 'a option" where
  "js_or a b = (if truthy_num a then a else b)"

text \<open>
  The lookups by id select \<^verbatim>\<open>SELECT *\<close>, so a row they return carries the column names
  \<^verbatim>\<open>is_vip\<close> and \<^verbatim>\<open>max_capacity\<close>; its camel-case properties \<^verbatim>\<open>isVip\<close> and
  \<^verbatim>\<open>maxCapacity\<close>, which the endpoints also read, are undefined.
\<close>

definition w_isVip :: "workshop \<Rightarrow> int option" where
  "w_isVip w = None"

definition w_maxCapacity :: "workshop \<Rightarrow> rat option" where
  "w_maxCapacity w = None"

definition g_isVip :: "guest \<Rightarrow> int option" where
  "g_isVip g = None"

subsection \<open>Middleware\<close>

text \<open>\<^verbatim>\<open>authorize(roles)\<close>: an admin passes, any other role must be listed.\<close>

definition authorize :: "string list \<Rightarrow> user \<Rightarrow> bool" where
  "authorize roles usr = (u_role usr = ''admin'' \<or> u_role usr \<in> set roles)"

text \<open>
  The owner scope the endpoints open to scanners pass to the lookups:
  \<^verbatim>\<open>req.user.role === 'scanner' ? null : req.userId\<close>.
\<close>

definition scope_of :: "user \<Rightarrow> nat option" where
  "scope_of usr = (if u_role usr = ''scanner'' then None else Some (u_id usr))"

subsection \<open>Lookups of database.js\<close>

text \<open>
  \<^verbatim>\<open>userId ? '... WHERE id = ? AND user_id = ?' : '... WHERE id = ?'\<close>; \<^verbatim>\<open>db.get\<close>
  resolves with the first row or undefined.
\<close>

definition in_scope :: "nat option \<Rightarrow> nat option \<Rightarrow> bool" where
  "in_scope userId owner = (if truthy_id userId then owner = userId else True)"

definition getWorkshopById :: "store \<Rightarrow> string \<Rightarrow> nat option \<Rightarrow> workshop option" where
  "getWorkshopById st ident userId =
     find (\<lambda>w. w_id w = ident \<and> in_scope userId (w_user_id w)) (workshops st)"

definition getGuestById :: "store \<Rightarrow> string \<Rightarrow> nat option \<Rightarrow> guest option" where
  "getGuestById st ident userId =
     find (\<lambda>g. g_id g = ident \<and> in_scope userId (g_user_id g)) (guests st)"

definition getAttendanceRecord :: "store \<Rightarrow> string \<Rightarrow> string \<Rightarrow> attendance_row option" where
  "getAttendanceRecord st guestId workshopId =
     find (\<lambda>a. a_guest_id a = guestId \<and> a_workshop_id a = workshopId) (attendance st)"

text \<open>
  \<^verbatim>\<open>SELECT g.* FROM guests g JOIN attendance a ON g.id = a.guest_id
  WHERE a.workshop_id = ? ORDER BY g.name ASC\<close>: one output row per matching pair of a
  guest row and an attendance row.
\<close>

definition getWorkshopAttendees :: "store \<Rightarrow> string \<Rightarrow> guest list" where
  "getWorkshopAttendees st workshopId =
     sort_key g_name
       (concat (map (\<lambda>g. map (\<lambda>a. g)
          (filter (\<lambda>a. a_guest_id a = g_id g \<and> a_workshop_id a = workshopId) (attendance st)))
          (guests st)))"

text \<open>
  \<^verbatim>\<open>SELECT w.* FROM workshops w JOIN attendance a ON w.id = a.workshop_id
  WHERE a.guest_id = ? ORDER BY w.date ASC\<close>.
\<close>

definition getGuestAttendance :: "store \<Rightarrow> string \<Rightarrow> workshop list" where
  "getGuestAttendance st guestId =
     sort_key w_date
       (concat (map (\<lambda>w. map (\<lambda>a. w)
          (filter (\<lambda>a. a_workshop_id a = w_id w \<and> a_guest_id a = guestId) (attendance st)))
          (workshops st)))"

subsection \<open>Inserting an attendance row\<close>

text \<open>
  \<^verbatim>\<open>createAttendance\<close>: the INSERT fails on the PRIMARY KEY or on
  UNIQUE(workshop_id, guest_id), which the function reports as
  \<^verbatim>\<open>'Attendance already recorded'\<close>, and, when foreign keys are enforced, on a missing
  workshop or guest. (\<^verbatim>\<open>created_by\<close> references the users table, which holds the
  authenticated caller.)
\<close>

definition createAttendance ::
  "store \<Rightarrow> string \<Rightarrow> string \<Rightarrow> string \<Rightarrow> string \<Rightarrow> nat \<Rightarrow> string + (attendance_row \<times> store)" where
  "createAttendance st ident guestId workshopId timestamp userId =
     (if list_ex (\<lambda>a. a_id a = ident \<or> (a_workshop_id a = workshopId \<and> a_guest_id a = guestId))
           (attendance st)
      then Inl ''Attendance already recorded''
      else if foreign_keys st \<and>
              \<not> (list_ex (\<lambda>w. w_id w = workshopId) (workshops st) \<and>
                 list_ex (\<lambda>g. g_id g = guestId) (guests st))
      then Inl ''SQLITE_CONSTRAINT: FOREIGN KEY constraint failed''
      else
        let r = \<lparr>a_id = ident, a_workshop_id = workshopId, a_guest_id = guestId,
                 a_timestamp = timestamp, a_created_by = Some userId\<rparr>
        in Inr (r, st\<lparr>attendance := attendance st @ [r]\<rparr>))"

section \<open>The attendance recorder\<close>

record attendance_body =
  b_guestId :: "string option"
  b_workshopId :: "string option"
  b_timestamp :: "string option"

text \<open>\<^verbatim>\<open>app.post('/api/attendance', ...)\<close> of the server.\<close>

definition postAttendance ::
  "env \<Rightarrow> user \<Rightarrow> attendance_body \<Rightarrow> store \<Rightarrow> attendance_row response \<times> store" where
  "postAttendance e usr body st =
     (if \<not> authorize [''admin'', ''scanner''] usr
      then (Err 403 ''Forbidden: Insufficient permissions'', st)
      else if \<not> (truthy_str (b_guestId body) \<and> truthy_str (b_workshopId body))
      then (Err 400 ''Guest ID and Workshop ID are required'', st)
      else
        let guestId = str_of (b_guestId body);
            workshopId = str_of (b_workshopId body);
            userId = scope_of usr
        in case getGuestById st guestId userId of
             None \<Rightarrow> (Err 404 ''Guest not found'', st)
           | Some guest \<Rightarrow>
              (case getWorkshopById st workshopId userId of
                 None \<Rightarrow> (Err 404 ''Workshop not found'', st)
               | Some workshop \<Rightarrow>
                  if truthy_num (js_or (w_isVip workshop) (Some (w_is_vip workshop))) \<and>
                     \<not> (truthy_num (g_isVip guest) \<or> g_is_vip guest \<noteq> 0)
                  then (Err 403 ''Non-VIP guest cannot attend VIP workshops'', st)
                  else if truthy_num (js_or (w_isVip workshop) (Some (w_is_vip workshop))) \<and>
                          truthy_num (js_or (w_maxCapacity workshop) (w_max_capacity workshop)) \<and>
                          num_of (js_or (w_maxCapacity workshop) (w_max_capacity workshop))
                            \<le> of_nat (length (getWorkshopAttendees st workshopId))
                  then (Err 403 ''Workshop has reached maximum capacity'', st)
                  else
                    (case getAttendanceRecord st guestId workshopId of
                       Some existingRecord \<Rightarrow> (Err 409 ''Attendance already recorded'', st)
                     | None \<Rightarrow>
                        (case createAttendance st (new_id e) guestId workshopId
                                (if truthy_str (b_timestamp body)
                                 then str_of (b_timestamp body) else now e)
                                (u_id usr) of
                           Inl err \<Rightarrow> (Err 500 ''Failed to record attendance'', st)
                         | Inr (r, st') \<Rightarrow> (Ok 201 r, st')))))"

text \<open>
  \<^verbatim>\<open>app.delete('/api/attendance/:id', ...)\<close>. The handler awaits \<^verbatim>\<open>db.get(...)\<close> of the
  callback API, which returns the database object itself, so \<^verbatim>\<open>record\<close> is always truthy
  and the 404 branch is never taken; the DELETE then runs for whatever rows match.
\<close>

definition delAttendance :: "user \<Rightarrow> string \<Rightarrow> store \<Rightarrow> unit response \<times> store" where
  "delAttendance usr ident st =
     (if \<not> authorize [''admin'', ''scanner''] usr
      then (Err 403 ''Forbidden: Insufficient permissions'', st)
      else (Ok 204 (), st\<lparr>attendance := filter (\<lambda>a. a_id a \<noteq> ident) (attendance st)\<rparr>))"

section \<open>Workshops\<close>

text \<open>
  The body of a creation or update request. \<^verbatim>\<open>wb_isVip\<close> is the truthiness of the JSON
  value \<^verbatim>\<open>isVip\<close>. \<^verbatim>\<open>wb_maxCapacity\<close> is the JSON number \<^verbatim>\<open>maxCapacity\<close> as the
  server has parsed it (any number, whole or not), or nothing when the field is absent or
  null; a \<^verbatim>\<open>maxCapacity\<close> that is a string, a boolean, an array or an object is outside
  the model.
\<close>

record workshop_body =
  wb_name :: "string option"
  wb_description :: "string option"
  wb_date :: "string option"
  wb_location :: "string option"
  wb_isVip :: bool
  wb_maxCapacity :: "rat option"

text \<open>
  \<^verbatim>\<open>workshopDb.createWorkshop\<close>: name, date and location are NOT NULL, id is the
  PRIMARY KEY; \<^verbatim>\<open>is_vip\<close> is stored as \<^verbatim>\<open>isVip ? 1 : 0\<close>.
\<close>

definition createWorkshop ::
  "store \<Rightarrow> string \<Rightarrow> workshop_body \<Rightarrow> nat \<Rightarrow> string + (workshop \<times> store)" where
  "createWorkshop st ident d userId =
     (if wb_name d = None \<or> wb_date d = None \<or> wb_location d = None
      then Inl ''SQLITE_CONSTRAINT: NOT NULL constraint failed''
      else if list_ex (\<lambda>w. w_id w = ident) (workshops st)
      then Inl ''SQLITE_CONSTRAINT: UNIQUE constraint failed: workshops.id''
      else
        let w = \<lparr>w_id = ident, w_name = str_of (wb_name d), w_description = wb_description d,
                 w_date = str_of (wb_date d), w_location = str_of (wb_location d),
                 w_user_id = Some userId, w_is_vip = (if wb_isVip d then 1 else 0),
                 w_max_capacity = wb_maxCapacity d\<rparr>
        in Inr (w, st\<lparr>workshops := workshops st @ [w]\<rparr>))"

text \<open>\<^verbatim>\<open>app.post('/api/workshops', ...)\<close>.\<close>

definition postWorkshops ::
  "env \<Rightarrow> user \<Rightarrow> workshop_body \<Rightarrow> store \<Rightarrow> workshop response \<times> store" where
  "postWorkshops e usr body st =
     (if \<not> authorize [''admin''] usr
      then (Err 403 ''Forbidden: Insufficient permissions'', st)
      else if \<not> truthy_str (wb_name body)
      then (Err 400 ''Workshop name is required'', st)
      else if wb_isVip body \<and>
              (\<not> truthy_num (wb_maxCapacity body) \<or> 31 < num_of (wb_maxCapacity body))
      then (Err 400 ''VIP workshops must have a maximum capacity of 31 or less'', st)
      else
        (case createWorkshop st (new_id e)
                (body\<lparr>wb_maxCapacity := (if wb_isVip body then wb_maxCapacity body else None)\<rparr>)
                (u_id usr) of
           Inl err \<Rightarrow> (Err 500 ''Failed to create workshop'', st)
         | Inr (w, st') \<Rightarrow> (Ok 201 w, st')))"

text \<open>
  \<^verbatim>\<open>workshopDb.updateWorkshop\<close>: the UPDATE sets name, description, date and location
  of the rows with the id, and nothing else.
\<close>

definition updateWorkshop :: "store \<Rightarrow> string \<Rightarrow> workshop_body \<Rightarrow> string + store" where
  "updateWorkshop st ident d =
     (if \<not> list_ex (\<lambda>w. w_id w = ident) (workshops st)
      then Inl ''Workshop not found''
      else if wb_name d = None \<or> wb_date d = None \<or> wb_location d = None
      then Inl ''SQLITE_CONSTRAINT: NOT NULL constraint failed''
      else Inr (st\<lparr>workshops :=
             map (\<lambda>w. if w_id w = ident
                       then w\<lparr>w_name := str_of (wb_name d), w_description := wb_description d,
                              w_date := str_of (wb_date d), w_location := str_of (wb_location d)\<rparr>
                       else w)
               (workshops st)\<rparr>))"

text \<open>\<^verbatim>\<open>app.put('/api/workshops/:id', ...)\<close>.\<close>

definition putWorkshop ::
  "user \<Rightarrow> string \<Rightarrow> workshop_body \<Rightarrow> store \<Rightarrow> unit response \<times> store" where
  "putWorkshop usr workshopId body st =
     (if \<not> authorize [''admin''] usr
      then (Err 403 ''Forbidden: Insufficient permissions'', st)
      else case getWorkshopById st workshopId (Some (u_id usr)) of
             None \<Rightarrow> (Err 404 ''Workshop not found'', st)
           | Some workshop \<Rightarrow>
              (case updateWorkshop st workshopId body of
                 Inl err \<Rightarrow> (Err 500 ''Failed to update workshop'', st)
               | Inr st' \<Rightarrow> (Ok 200 (), st')))"

text \<open>
  \<^verbatim>\<open>workshopDb.deleteWorkshop\<close>: \<^verbatim>\<open>DELETE FROM workshops WHERE id = ?\<close>. The attendance
  table references workshops with ON DELETE CASCADE, the vip_access table references them
  with no ON DELETE clause. With foreign keys enforced the statement therefore removes
  the workshop's attendance rows and fails, changing nothing, when a vip_access row
  references the workshop; with foreign keys not enforced it removes the workshop row
  alone.
\<close>

definition deleteWorkshop :: "store \<Rightarrow> string \<Rightarrow> string + store" where
  "deleteWorkshop st ident =
     (if \<not> list_ex (\<lambda>w. w_id w = ident) (workshops st)
      then Inl ''Workshop not found''
      else if foreign_keys st
      then (if list_ex (\<lambda>v. v_workshop_id v = ident) (vip_access st)
            then Inl ''SQLITE_CONSTRAINT: FOREIGN KEY constraint failed''
            else Inr (st\<lparr>workshops := filter (\<lambda>w. w_id w \<noteq> ident) (workshops st),
                          attendance := filter (\<lambda>a. a_workshop_id a \<noteq> ident) (attendance st)\<rparr>))
      else Inr (st\<lparr>workshops := filter (\<lambda>w. w_id w \<noteq> ident) (workshops st)\<rparr>))"

text \<open>\<^verbatim>\<open>app.delete('/api/workshops/:id', ...)\<close>.\<close>

definition delWorkshop :: "user \<Rightarrow> string \<Rightarrow> store \<Rightarrow> unit response \<times> store" where
  "delWorkshop usr workshopId st =
     (if \<not> authorize [''admin''] usr
      then (Err 403 ''Forbidden: Insufficient permissions'', st)
      else case getWorkshopById st workshopId (Some (u_id usr)) of
             None \<Rightarrow> (Err 404 ''Workshop not found'', st)
           | Some workshop \<Rightarrow>
              (case deleteWorkshop st workshopId of
                 Inl err \<Rightarrow> (Err 500 ''Failed to delete workshop'', st)
               | Inr st' \<Rightarrow> (Ok 204 (), st')))"

section \<open>Guests\<close>

record guest_body =
  gb_name :: "string option"
  gb_email :: "string option"
  gb_isVip :: bool

text \<open>
  \<^verbatim>\<open>guestDb.createGuest\<close>: the QR token is \<^verbatim>\<open>guest-\<close> followed by the new id; the email
  is stored as \<^verbatim>\<open>email || ''\<close>; id, email and qr_code are unique, name is NOT NULL.
\<close>

definition createGuest ::
  "store \<Rightarrow> string \<Rightarrow> guest_body \<Rightarrow> nat \<Rightarrow> string + (guest \<times> store)" where
  "createGuest st ident d userId =
     (let qrCode = ''guest-'' @ ident;
          email = (if truthy_str (gb_email d) then str_of (gb_email d) else [])
      in if gb_name d = None
         then Inl ''SQLITE_CONSTRAINT: NOT NULL constraint failed: guests.name''
         else if list_ex (\<lambda>g. g_email g = email) (guests st)
         then Inl ''Email already exists''
         else if list_ex (\<lambda>g. g_id g = ident \<or> g_qr_code g = qrCode) (guests st)
         then Inl ''SQLITE_CONSTRAINT: UNIQUE constraint failed''
         else
           let g = \<lparr>g_id = ident, g_name = str_of (gb_name d), g_email = email,
                    g_qr_code = qrCode, g_user_id = Some userId,
                    g_is_vip = (if gb_isVip d then 1 else 0)\<rparr>
           in Inr (g, st\<lparr>guests := guests st @ [g]\<rparr>))"

text \<open>\<^verbatim>\<open>app.post('/api/guests', ...)\<close>; \<^verbatim>\<open>gb_isVip\<close> is \<^verbatim>\<open>isVip === true\<close>.\<close>

definition postGuests :: "env \<Rightarrow> user \<Rightarrow> guest_body \<Rightarrow> store \<Rightarrow> guest response \<times> store" where
  "postGuests e usr body st =
     (if \<not> authorize [''admin''] usr
      then (Err 403 ''Forbidden: Insufficient permissions'', st)
      else if \<not> truthy_str (gb_name body)
      then (Err 400 ''Guest name is required'', st)
      else
        (case createGuest st (new_id e) body (u_id usr) of
           Inl err \<Rightarrow> (Err 500 ''Failed to create guest'', st)
         | Inr (g, st') \<Rightarrow> (Ok 201 g, st')))"

text \<open>
  \<^verbatim>\<open>guestDb.updateGuest\<close>: the UPDATE sets name, email and is_vip; name and email are
  NOT NULL and the email stays unique among the other rows.
\<close>

definition updateGuest :: "store \<Rightarrow> string \<Rightarrow> guest_body \<Rightarrow> string + store" where
  "updateGuest st ident d =
     (if \<not> list_ex (\<lambda>g. g_id g = ident) (guests st)
      then Inl ''Guest not found''
      else if gb_name d = None \<or> gb_email d = None
      then Inl ''SQLITE_CONSTRAINT: NOT NULL constraint failed''
      else if list_ex (\<lambda>g. g_id g \<noteq> ident \<and> g_email g = str_of (gb_email d)) (guests st)
      then Inl ''Email already exists''
      else Inr (st\<lparr>guests :=
             map (\<lambda>g. if g_id g = ident
                       then g\<lparr>g_name := str_of (gb_name d), g_email := str_of (gb_email d),
                              g_is_vip := (if gb_isVip d then 1 else 0)\<rparr>
                       else g)
               (guests st)\<rparr>))"

text \<open>\<^verbatim>\<open>app.put('/api/guests/:id', ...)\<close>.\<close>

definition putGuest :: "user \<Rightarrow> string \<Rightarrow> guest_body \<Rightarrow> store \<Rightarrow> unit response \<times> store" where
  "putGuest usr guestId body st =
     (if \<not> authorize [''admin''] usr
      then (Err 403 ''Forbidden: Insufficient permissions'', st)
      else case getGuestById st guestId (Some (u_id usr)) of
             None \<Rightarrow> (Err 404 ''Guest not found'', st)
           | Some guest \<Rightarrow>
              (case updateGuest st guestId body of
                 Inl err \<Rightarrow> (Err 500 ''Failed to update guest'', st)
               | Inr st' \<Rightarrow> (Ok 200 (), st')))"

text \<open>
  \<^verbatim>\<open>guestDb.deleteGuest\<close>: \<^verbatim>\<open>DELETE FROM guests WHERE id = ?\<close>, with the same cascade
  on attendance and the same plain reference from vip_access as for workshops.
\<close>

definition deleteGuest :: "store \<Rightarrow> string \<Rightarrow> string + store" where
  "deleteGuest st ident =
     (if \<not> list_ex (\<lambda>g. g_id g = ident) (guests st)
      then Inl ''Guest not found''
      else if foreign_keys st
      then (if list_ex (\<lambda>v. v_guest_id v = ident) (vip_access st)
            then Inl ''SQLITE_CONSTRAINT: FOREIGN KEY constraint failed''
            else Inr (st\<lparr>guests := filter (\<lambda>g. g_id g \<noteq> ident) (guests st),
                          attendance := filter (\<lambda>a. a_guest_id a \<noteq> ident) (attendance st)\<rparr>))
      else Inr (st\<lparr>guests := filter (\<lambda>g. g_id g \<noteq> ident) (guests st)\<rparr>))"

text \<open>\<^verbatim>\<open>app.delete('/api/guests/:id', ...)\<close>.\<close>

definition delGuest :: "user \<Rightarrow> string \<Rightarrow> store \<Rightarrow> unit response \<times> store" where
  "delGuest usr guestId st =
     (if \<not> authorize [''admin''] usr
      then (Err 403 ''Forbidden: Insufficient permissions'', st)
      else case getGuestById st guestId (Some (u_id usr)) of
             None \<Rightarrow> (Err 404 ''Guest not found'', st)
           | Some guest \<Rightarrow>
              (case deleteGuest st guestId of
                 Inl err \<Rightarrow> (Err 500 ''Failed to delete guest'', st)
               | Inr st' \<Rightarrow> (Ok 204 (), st')))"

section \<open>The access gatekeeper\<close>

text \<open>
  \<^verbatim>\<open>addVipAccess\<close>: a plain INSERT; id is the PRIMARY KEY and (guest_id, workshop_id)
  is UNIQUE, and any error of the statement rejects the promise with its message.
\<close>

definition addVipAccess :: "store \<Rightarrow> string \<Rightarrow> string \<Rightarrow> string \<Rightarrow> string + (vip_row \<times> store)" where
  "addVipAccess st ident guestId workshopId =
     (if list_ex (\<lambda>v. v_id v = ident) (vip_access st)
      then Inl ''SQLITE_CONSTRAINT: UNIQUE constraint failed: vip_access.id''
      else if list_ex (\<lambda>v. v_guest_id v = guestId \<and> v_workshop_id v = workshopId) (vip_access st)
      then Inl ''SQLITE_CONSTRAINT: UNIQUE constraint failed: vip_access.guest_id, vip_access.workshop_id''
      else if foreign_keys st \<and>
              \<not> (list_ex (\<lambda>g. g_id g = guestId) (guests st) \<and>
                 list_ex (\<lambda>w. w_id w = workshopId) (workshops st))
      then Inl ''SQLITE_CONSTRAINT: FOREIGN KEY constraint failed''
      else
        let v = \<lparr>v_id = ident, v_guest_id = guestId, v_workshop_id = workshopId\<rparr>
        in Inr (v, st\<lparr>vip_access := vip_access st @ [v]\<rparr>))"

definition removeVipAccess :: "store \<Rightarrow> string \<Rightarrow> string \<Rightarrow> store" where
  "removeVipAccess st guestId workshopId =
     st\<lparr>vip_access :=
          filter (\<lambda>v. \<not> (v_guest_id v = guestId \<and> v_workshop_id v = workshopId)) (vip_access st)\<rparr>"

definition hasVipAccess :: "store \<Rightarrow> string \<Rightarrow> string \<Rightarrow> bool" where
  "hasVipAccess st guestId workshopId =
     list_ex (\<lambda>v. v_guest_id v = guestId \<and> v_workshop_id v = workshopId) (vip_access st)"

definition getVipWorkshopCount :: "store \<Rightarrow> string \<Rightarrow> nat" where
  "getVipWorkshopCount st workshopId =
     length (filter (\<lambda>v. v_workshop_id v = workshopId) (vip_access st))"

text \<open>
  \<^verbatim>\<open>app.post('/api/workshops/:workshopId/vip-access', ...)\<close>. The capacity comparison
  \<^verbatim>\<open>currentCount >= (workshop.max_capacity || workshop.maxCapacity)\<close> is false when
  neither property is truthy (a comparison with undefined).
\<close>

definition postVipAccess ::
  "env \<Rightarrow> user \<Rightarrow> string \<Rightarrow> string option \<Rightarrow> store \<Rightarrow> unit response \<times> store" where
  "postVipAccess e usr workshopId guestId st =
     (if \<not> authorize [''admin''] usr
      then (Err 403 ''Forbidden: Insufficient permissions'', st)
      else if \<not> (workshopId \<noteq> [] \<and> truthy_str guestId)
      then (Err 400 ''Workshop ID and Guest ID are required'', st)
      else case getWorkshopById st workshopId (Some (u_id usr)) of
             None \<Rightarrow> (Err 404 ''Workshop not found'', st)
           | Some workshop \<Rightarrow>
              if \<not> (w_is_vip workshop \<noteq> 0 \<or> truthy_num (w_isVip workshop))
              then (Err 400 ''This is not a VIP workshop'', st)
              else if truthy_num (js_or (w_max_capacity workshop) (w_maxCapacity workshop)) \<and>
                      num_of (js_or (w_max_capacity workshop) (w_maxCapacity workshop))
                        \<le> of_nat (getVipWorkshopCount st workshopId)
              then (Err 400 ''VIP workshop has reached maximum capacity'', st)
              else
                (case getGuestById st (str_of guestId) (Some (u_id usr)) of
                   None \<Rightarrow> (Err 404 ''Guest not found'', st)
                 | Some guest \<Rightarrow>
                    (case addVipAccess st (new_id e) (str_of guestId) workshopId of
                       Inl err \<Rightarrow> (Err 500 (''Failed to grant VIP access: '' @ err), st)
                     | Inr (v, st') \<Rightarrow> (Ok 201 (), st'))))"

text \<open>
  \<^verbatim>\<open>app.delete('/api/workshops/:workshopId/vip-access/:guestId', ...)\<close>. The handler
  tests \<^verbatim>\<open>!workshop.isVip\<close> alone on the row of \<^verbatim>\<open>SELECT *\<close>.
\<close>

definition delVipAccess :: "user \<Rightarrow> string \<Rightarrow> string \<Rightarrow> store \<Rightarrow> unit response \<times> store" where
  "delVipAccess usr workshopId guestId st =
     (if \<not> authorize [''admin''] usr
      then (Err 403 ''Forbidden: Insufficient permissions'', st)
      else case getWorkshopById st workshopId (Some (u_id usr)) of
             None \<Rightarrow> (Err 404 ''Workshop not found'', st)
           | Some workshop \<Rightarrow>
              if \<not> truthy_num (w_isVip workshop)
              then (Err 400 ''This is not a VIP workshop'', st)
              else (Ok 200 (), removeVipAccess st guestId workshopId))"

section \<open>Eligibility and analytics\<close>

text \<open>
  The percentage is a JavaScript number, an IEEE 754 double. A double is a rational
  \<^verbatim>\<open>m * 2^e\<close> with a significand \<^verbatim>\<open>m\<close> of at most 53 bits, and every arithmetic
  operation returns the double nearest to the exact result, the one with the even
  significand when two are equally near. \<^verbatim>\<open>round_even\<close> rounds a rational to the nearest
  integer in that way, \<^verbatim>\<open>ilog2 x\<close> is the integer \<^verbatim>\<open>e\<close> with \<^verbatim>\<open>2^e <= x < 2^(e+1)\<close> for a
  positive \<^verbatim>\<open>x\<close>, and \<^verbatim>\<open>to_double\<close> rounds a rational to the nearest double. The
  values that occur below lie between \<^verbatim>\<open>2^-1022\<close> and \<^verbatim>\<open>2^1024\<close> in absolute value or are
  0, so subnormal numbers and overflow are left out.
\<close>

definition round_even :: "rat \<Rightarrow> int" where
  "round_even y = (let n = \<lfloor>y\<rfloor>; r = y - of_int n
                   in if r < 1 / 2 then n
                      else if 1 / 2 < r then n + 1
                      else if even n then n else n + 1)"

definition ilog2 :: "rat \<Rightarrow> int" where
  "ilog2 x = (if 1 \<le> x then bitlen \<lfloor>x\<rfloor> - 1 else - bitlen (\<lceil>1 / x\<rceil> - 1))"

definition to_double :: "rat \<Rightarrow> rat" where
  "to_double x = (if x = 0 then 0
                  else let u = 2 powi (ilog2 \<bar>x\<bar> - 52)
                       in of_int (round_even (x / u)) * u)"

text \<open>
  \<^verbatim>\<open>analyticsDb.calculateGuestAttendancePercentage\<close>. The counts are those of
  \<^verbatim>\<open>SELECT COUNT(*) FROM workshops WHERE user_id = ?\<close> and of the join of the guest's
  attendance rows with the workshops of that owner.

  \<^verbatim>\<open>calculateGuestAttendancePercentage_js\<close> is the number the function resolves with: the
  two counts arrive as doubles, and the quotient and the product are each rounded to a
  double. \<^verbatim>\<open>calculateGuestAttendancePercentage\<close> is the same expression before any
  rounding; the endpoints below, which compare the percentage with 70 and with 1, are
  modelled on it, and the comparisons have the same outcome on both (lemma
  \<^verbatim>\<open>comparisons_in_doubles\<close>).
\<close>

definition totalWorkshops :: "store \<Rightarrow> nat \<Rightarrow> nat" where
  "totalWorkshops st userId = length (filter (\<lambda>w. w_user_id w = Some userId) (workshops st))"

definition attendedWorkshops :: "store \<Rightarrow> string \<Rightarrow> nat \<Rightarrow> nat" where
  "attendedWorkshops st guestId userId =
     length (concat (map (\<lambda>a.
        filter (\<lambda>w. a_workshop_id a = w_id w \<and> w_user_id w = Some userId) (workshops st))
        (filter (\<lambda>a. a_guest_id a = guestId) (attendance st))))"

definition calculateGuestAttendancePercentage :: "store \<Rightarrow> string \<Rightarrow> nat \<Rightarrow> rat" where
  "calculateGuestAttendancePercentage st guestId userId =
     (if totalWorkshops st userId = 0 then 0
      else (of_nat (attendedWorkshops st guestId userId) / of_nat (totalWorkshops st userId)) * 100)"

definition calculateGuestAttendancePercentage_js :: "store \<Rightarrow> string \<Rightarrow> nat \<Rightarrow> rat" where
  "calculateGuestAttendancePercentage_js st guestId userId =
     (let totalWorkshops = to_double (of_nat (totalWorkshops st userId))
      in if totalWorkshops = 0 then 0
         else let attendedWorkshops = to_double (of_nat (attendedWorkshops st guestId userId));
                  percentage = to_double (to_double (attendedWorkshops / totalWorkshops) * 100)
              in percentage)"

text \<open>\<^verbatim>\<open>app.get('/api/analytics/guest/:guestId/percentage', ...)\<close>.\<close>

definition getGuestPercentage :: "user \<Rightarrow> string \<Rightarrow> store \<Rightarrow> rat response" where
  "getGuestPercentage usr guestId st =
     (if \<not> authorize [''admin''] usr
      then Err 403 ''Forbidden: Insufficient permissions''
      else case getGuestById st guestId (Some (u_id usr)) of
             None \<Rightarrow> Err 404 ''Guest not found''
           | Some guest \<Rightarrow> Ok 200 (calculateGuestAttendancePercentage st guestId (u_id usr)))"

text \<open>
  \<^verbatim>\<open>app.get('/api/analytics/guest/:guestId/eligible', ...)\<close>; the payload is
  \<^verbatim>\<open>{ eligible, percentage }\<close>.
\<close>

definition getGuestEligible :: "user \<Rightarrow> string \<Rightarrow> store \<Rightarrow> (bool \<times> rat) response" where
  "getGuestEligible usr guestId st =
     (if \<not> authorize [''admin''] usr
      then Err 403 ''Forbidden: Insufficient permissions''
      else case getGuestById st guestId (Some (u_id usr)) of
             None \<Rightarrow> Err 404 ''Guest not found''
           | Some guest \<Rightarrow>
              let percentage = calculateGuestAttendancePercentage st guestId (u_id usr);
                  eligible = (70 \<le> percentage)
              in Ok 200 (eligible, percentage))"

text \<open>
  \<^verbatim>\<open>app.post('/api/certificates/generate', ...)\<close> up to the point where the template
  is read. The rendering of the image is outside the model: a request that passes every
  check is answered with the document for \<^verbatim>\<open>guestName\<close>.
\<close>

definition postCertificate ::
  "user \<Rightarrow> string option \<Rightarrow> string option \<Rightarrow> store \<Rightarrow> string response" where
  "postCertificate usr guestId guestName st =
     (if \<not> authorize [''admin''] usr
      then Err 403 ''Forbidden: Insufficient permissions''
      else if \<not> (truthy_str guestId \<and> truthy_str guestName)
      then Err 400 ''Missing guest information''
      else case getGuestById st (str_of guestId) (Some (u_id usr)) of
             None \<Rightarrow> Err 404 ''Guest not found''
           | Some guest \<Rightarrow>
              if getGuestAttendance st (str_of guestId) = []
              then Err 403 ''Guest has not attended any workshops''
              else if calculateGuestAttendancePercentage st (str_of guestId) (u_id usr) < 1
              then Err 403 ''Guest has not attended any workshops''
              else Ok 200 (str_of guestName))"

section \<open>The scanner page\<close>

text \<open>The read endpoints the page calls, with the lookups of \<^verbatim>\<open>database.js\<close> behind them.\<close>

definition getGuestByQRCode :: "store \<Rightarrow> string \<Rightarrow> nat option \<Rightarrow> guest option" where
  "getGuestByQRCode st qrCode userId =
     find (\<lambda>g. g_qr_code g = qrCode \<and> in_scope userId (g_user_id g)) (guests st)"

text \<open>\<^verbatim>\<open>app.get('/api/guests/qr/:qrCode', ...)\<close>.\<close>

definition getGuestsQr :: "user \<Rightarrow> string \<Rightarrow> store \<Rightarrow> guest response" where
  "getGuestsQr usr qrCode st =
     (if \<not> authorize [''admin'', ''scanner''] usr
      then Err 403 ''Forbidden: Insufficient permissions''
      else case getGuestByQRCode st qrCode (scope_of usr) of
             None \<Rightarrow> Err 404 ''Guest not found''
           | Some guest \<Rightarrow> Ok 200 guest)"

text \<open>\<^verbatim>\<open>app.get('/api/workshops/:id', ...)\<close>.\<close>

definition getWorkshop :: "user \<Rightarrow> string \<Rightarrow> store \<Rightarrow> workshop response" where
  "getWorkshop usr ident st =
     (if \<not> authorize [''admin'', ''scanner''] usr
      then Err 403 ''Forbidden: Insufficient permissions''
      else case getWorkshopById st ident (scope_of usr) of
             None \<Rightarrow> Err 404 ''Workshop not found''
           | Some workshop \<Rightarrow> Ok 200 workshop)"

text \<open>
  \<^verbatim>\<open>attendanceDb.getAllAttendance\<close>:
  \<^verbatim>\<open>SELECT a.* FROM attendance a JOIN workshops w ON a.workshop_id = w.id
  JOIN guests g ON a.guest_id = g.id [WHERE w.user_id = ? OR g.user_id = ?]
  ORDER BY a.timestamp DESC\<close>.
\<close>

definition getAllAttendance :: "store \<Rightarrow> nat option \<Rightarrow> attendance_row list" where
  "getAllAttendance st userId =
     rev (sort_key a_timestamp
       (concat (map (\<lambda>a.
          concat (map (\<lambda>w.
            map (\<lambda>g. a)
              (filter (\<lambda>g. a_guest_id a = g_id g \<and>
                           (if truthy_id userId
                            then w_user_id w = userId \<or> g_user_id g = userId else True))
                 (guests st)))
            (filter (\<lambda>w. a_workshop_id a = w_id w) (workshops st))))
          (attendance st))))"

text \<open>\<^verbatim>\<open>app.get('/api/attendance', ...)\<close>.\<close>

definition getAttendanceList :: "user \<Rightarrow> store \<Rightarrow> attendance_row list response" where
  "getAttendanceList usr st =
     (if \<not> authorize [''admin'', ''scanner''] usr
      then Err 403 ''Forbidden: Insufficient permissions''
      else Ok 200 (getAllAttendance st (scope_of usr)))"

subsection \<open>apiService.ts and dataUtils.ts\<close>

text \<open>A settled promise: the resolved value, or the message of the Error thrown.\<close>

datatype 'a fetched = Resolved 'a | Thrown string

text \<open>
  The guest object of \<^verbatim>\<open>apiService.getGuestByQRCode\<close>: the row, with
  \<^verbatim>\<open>isVip: guest.isVip || guest.is_vip === 1 || guest.is_vip === true\<close>.
\<close>

record scan_guest =
  sg_id :: string
  sg_name :: string
  sg_isVip :: bool

text \<open>
  The record objects of \<^verbatim>\<open>apiService.fetchAttendance\<close>, which keeps \<^verbatim>\<open>id\<close>,
  \<^verbatim>\<open>guestId\<close>, \<^verbatim>\<open>workshopId\<close> and \<^verbatim>\<open>timestamp\<close>; the property \<^verbatim>\<open>workshop_id\<close>,
  which the page also reads, is not copied and is undefined.
\<close>

record scan_record =
  sr_id :: string
  sr_guestId :: string
  sr_workshopId :: string
  sr_timestamp :: string
  sr_workshop_id :: "string option"

text \<open>
  \<^verbatim>\<open>apiService.getGuestByQRCode\<close>. The decoded text is put into the path of the request
  as it is, without URL encoding, and the server looks up the path segment it receives.
  The model takes that segment to be the decoded text, which holds for a text without
  the characters \<^verbatim>\<open>/\<close>, \<^verbatim>\<open>?\<close>, \<^verbatim>\<open>#\<close> and \<^verbatim>\<open>%\<close>, and so for every code the server
  issues (\<^verbatim>\<open>guest-\<close> followed by the guest's id).
\<close>

definition api_getGuestByQRCode :: "user \<Rightarrow> string \<Rightarrow> store \<Rightarrow> scan_guest fetched" where
  "api_getGuestByQRCode usr qrCode st =
     (case getGuestsQr usr qrCode st of
        Err c m \<Rightarrow> Thrown ''Guest not found''
      | Ok c guest \<Rightarrow>
          Resolved \<lparr>sg_id = g_id guest, sg_name = g_name guest,
                    sg_isVip = (truthy_num (g_isVip guest) \<or> g_is_vip guest = 1)\<rparr>)"

text \<open>\<^verbatim>\<open>dataUtils.getGuestByQRCode\<close> catches the error and returns undefined.\<close>

definition utils_getGuestByQRCode :: "user \<Rightarrow> string \<Rightarrow> store \<Rightarrow> scan_guest option" where
  "utils_getGuestByQRCode usr qrCode st =
     (case api_getGuestByQRCode usr qrCode st of
        Thrown m \<Rightarrow> None
      | Resolved guest \<Rightarrow> Some guest)"

definition api_getWorkshopById :: "user \<Rightarrow> string \<Rightarrow> store \<Rightarrow> workshop fetched" where
  "api_getWorkshopById usr ident st =
     (case getWorkshop usr ident st of
        Err c m \<Rightarrow> Thrown ''Failed to fetch workshop''
      | Ok c workshop \<Rightarrow> Resolved workshop)"

definition api_fetchAttendance :: "user \<Rightarrow> store \<Rightarrow> scan_record list fetched" where
  "api_fetchAttendance usr st =
     (case getAttendanceList usr st of
        Err c m \<Rightarrow> Thrown ''Failed to fetch attendance records''
      | Ok c rawData \<Rightarrow>
          Resolved (map (\<lambda>record. \<lparr>sr_id = a_id record, sr_guestId = a_guest_id record,
                                   sr_workshopId = a_workshop_id record,
                                   sr_timestamp = a_timestamp record,
                                   sr_workshop_id = None\<rparr>) rawData))"

text \<open>
  \<^verbatim>\<open>apiService.recordAttendance\<close> posts \<^verbatim>\<open>{guestId, workshopId, timestamp}\<close> with the
  client's clock and throws on every answer that is not a success.
\<close>

definition api_recordAttendance ::
  "env \<Rightarrow> user \<Rightarrow> string \<Rightarrow> string \<Rightarrow> store \<Rightarrow> attendance_row fetched \<times> store" where
  "api_recordAttendance e usr guestId workshopId st =
     (case postAttendance e usr
             \<lparr>b_guestId = Some guestId, b_workshopId = Some workshopId,
              b_timestamp = Some (now e)\<rparr> st of
        (Err c m, st') \<Rightarrow>
          (if m = ''Non-VIP guest cannot attend VIP workshops''
           then (Thrown ''Non-VIP guest cannot attend VIP workshops'', st')
           else (Thrown ''Failed to record attendance'', st'))
      | (Ok c rawData, st') \<Rightarrow> (Resolved rawData, st'))"

subsection \<open>The scan handler\<close>

text \<open>What the page shows after a scan: \<^verbatim>\<open>{ success, message }\<close>.\<close>

datatype scan_result = ScanOk string | ScanFail string

text \<open>
  \<^verbatim>\<open>onScanSuccess\<close> of the QR scanner component, for the workshop the page has selected
  and the decoded text of the code. The workshop object is the row of
  \<^verbatim>\<open>GET /api/workshops/:id\<close>, so its \<^verbatim>\<open>isVip\<close> and \<^verbatim>\<open>maxCapacity\<close> are undefined; it
  is an object whenever the request resolves, so the handler's \<^verbatim>\<open>!workshop\<close> branch is
  never taken. The requests of one scan see the same store.
\<close>

definition onScanSuccess ::
  "env \<Rightarrow> user \<Rightarrow> string \<Rightarrow> string \<Rightarrow> store \<Rightarrow> scan_result \<times> store" where
  "onScanSuccess e usr workshopId decodedText st =
     (if take 6 decodedText \<noteq> ''guest-''
      then (ScanFail ''Invalid QR code format'', st)
      else case utils_getGuestByQRCode usr decodedText st of
             None \<Rightarrow> (ScanFail ''Guest not found'', st)
           | Some guest \<Rightarrow>
              (case api_getWorkshopById usr workshopId st of
                 Thrown m \<Rightarrow> (ScanFail ''Error processing QR code'', st)
               | Resolved workshop \<Rightarrow>
                  (case api_fetchAttendance usr st of
                     Thrown m \<Rightarrow> (ScanFail ''Error processing QR code'', st)
                   | Resolved attendanceRecords \<Rightarrow>
                      if truthy_num (w_isVip workshop) \<and> \<not> sg_isVip guest
                      then (ScanFail ''This is a VIP workshop. Guest does not have VIP access.'',
                            st)
                      else if truthy_num (w_maxCapacity workshop) \<and>
                              num_of (w_maxCapacity workshop)
                                \<le> of_nat (length (filter
                                     (\<lambda>record. sr_workshop_id record = Some workshopId)
                                     attendanceRecords))
                      then (ScanFail ''Workshop has reached maximum capacity'', st)
                      else
                        (case find (\<lambda>record. sr_guestId record = sg_id guest \<and>
                                             sr_workshopId record = workshopId)
                                attendanceRecords of
                           Some existingRecord \<Rightarrow>
                             (ScanOk (sg_name guest @ '' already checked in to this workshop''),
                              st)
                         | None \<Rightarrow>
                            (case api_recordAttendance e usr (sg_id guest) workshopId st of
                               (Thrown m, st') \<Rightarrow>
                                 (ScanFail
                                    (if m = ''Non-VIP guest cannot attend VIP workshops''
                                     then ''This guest does not have VIP access for this workshop''
                                     else ''Error processing QR code''), st')
                             | (Resolved r, st') \<Rightarrow>
                                 (ScanOk (sg_name guest @ '' checked in successfully''),
                                  st'))))))"

section \<open>Example data\<close>

definition admin :: user where
  "admin = \<lparr>u_id = 1, u_role = ''admin''\<rparr>"

definition scanner :: user where
  "scanner = \<lparr>u_id = 2, u_role = ''scanner''\<rparr>"

definition wsA :: workshop where
  "wsA = \<lparr>w_id = ''A'', w_name = ''Opening'', w_description = None, w_date = ''2025-05-01'',
          w_location = ''Hall'', w_user_id = Some 1, w_is_vip = 0, w_max_capacity = None\<rparr>"

definition wsB :: workshop where
  "wsB = \<lparr>w_id = ''B'', w_name = ''Lounge'', w_description = None, w_date = ''2025-05-02'',
          w_location = ''Suite'', w_user_id = Some 1, w_is_vip = 1, w_max_capacity = Some 1\<rparr>"

definition wsC :: workshop where
  "wsC = \<lparr>w_id = ''C'', w_name = ''Dinner'', w_description = None, w_date = ''2025-05-03'',
          w_location = ''Terrace'', w_user_id = Some 1, w_is_vip = 1, w_max_capacity = Some 2\<rparr>"

definition gX :: guest where
  "gX = \<lparr>g_id = ''X'', g_name = ''Xena'', g_email = ''x@example.org'',
         g_qr_code = ''guest-X'', g_user_id = Some 1, g_is_vip = 0\<rparr>"

definition gY :: guest where
  "gY = \<lparr>g_id = ''Y'', g_name = ''Yann'', g_email = ''y@example.org'',
         g_qr_code = ''guest-Y'', g_user_id = Some 1, g_is_vip = 1\<rparr>"

definition gZ :: guest where
  "gZ = \<lparr>g_id = ''Z'', g_name = ''Zoe'', g_email = ''z@example.org'',
         g_qr_code = ''guest-Z'', g_user_id = Some 1, g_is_vip = 1\<rparr>"

text \<open>
  An open workshop A, the VIP workshops B (capacity 1) and C (capacity 2), and three
  guests, of whom X is not VIP.
\<close>

definition demo :: store where
  "demo = \<lparr>foreign_keys = False, workshops = [wsA, wsB, wsC], guests = [gX, gY, gZ],
           attendance = [], vip_access = []\<rparr>"

definition scan :: "string \<Rightarrow> string \<Rightarrow> attendance_body" where
  "scan g w = \<lparr>b_guestId = Some g, b_workshopId = Some w, b_timestamp = None\<rparr>"

definition env1 :: env where
  "env1 = \<lparr>new_id = ''r1'', now = ''09:00''\<rparr>"

definition env2 :: env where
  "env2 = \<lparr>new_id = ''r2'', now = ''09:05''\<rparr>"

definition row :: "string \<Rightarrow> string \<Rightarrow> string \<Rightarrow> string \<Rightarrow> attendance_row" where
  "row i g w t = \<lparr>a_id = i, a_workshop_id = w, a_guest_id = g, a_timestamp = t,
                  a_created_by = Some 1\<rparr>"

definition grant :: "string \<Rightarrow> string \<Rightarrow> string \<Rightarrow> vip_row" where
  "grant i g w = \<lparr>v_id = i, v_guest_id = g, v_workshop_id = w\<rparr>"

definition envV :: env where
  "envV = \<lparr>new_id = ''v1'', now = ''08:00''\<rparr>"

definition envV2 :: env where
  "envV2 = \<lparr>new_id = ''v2'', now = ''08:30''\<rparr>"

text \<open>The store after X has checked in to A.\<close>

definition demoXA :: store where
  "demoXA = demo\<lparr>attendance := [row ''r1'' ''X'' ''A'' ''09:00'']\<rparr>"

text \<open>The store after X has been granted access to B, and after Y has been granted access to C.\<close>

definition demoXB :: store where
  "demoXB = demo\<lparr>vip_access := [grant ''v1'' ''X'' ''B'']\<rparr>"

definition demoYC :: store where
  "demoYC = demo\<lparr>vip_access := [grant ''v1'' ''Y'' ''C'']\<rparr>"

text \<open>
  A store with \<^term>\<open>n\<close> workshops of owner 1, at the first \<^term>\<open>k\<close> of which guest X has
  checked in.
\<close>

definition mk_workshop :: "nat \<Rightarrow> workshop" where
  "mk_workshop n = \<lparr>w_id = replicate (Suc n) CHR ''w'', w_name = ''Session'',
     w_description = None, w_date = ''2025-06-01'', w_location = ''Room'',
     w_user_id = Some 1, w_is_vip = 0, w_max_capacity = None\<rparr>"

definition mk_row :: "nat \<Rightarrow> attendance_row" where
  "mk_row n = \<lparr>a_id = replicate (Suc n) CHR ''r'', a_workshop_id = replicate (Suc n) CHR ''w'',
     a_guest_id = ''X'', a_timestamp = ''10:00'', a_created_by = Some 1\<rparr>"

definition series :: "nat \<Rightarrow> nat \<Rightarrow> store" where
  "series n k = \<lparr>foreign_keys = False, workshops = map mk_workshop [0..<n], guests = [gX],
     attendance = map mk_row [0..<k], vip_access = []\<rparr>"

section \<open>Constraints of the schema and reachable stores\<close>

text \<open>The PRIMARY KEY and UNIQUE constraints of the four tables.\<close>

definition schema_ok :: "store \<Rightarrow> bool" where
  "schema_ok st =
     (distinct (map w_id (workshops st)) \<and> distinct (map g_id (guests st)) \<and>
      distinct (map a_id (attendance st)) \<and>
      distinct (map (\<lambda>a. (a_workshop_id a, a_guest_id a)) (attendance st)) \<and>
      distinct (map v_id (vip_access st)) \<and>
      distinct (map (\<lambda>v. (v_guest_id v, v_workshop_id v)) (vip_access st)))"

text \<open>
  Every attendance row and every VIP grant refers to a workshop and a guest of the
  store.
\<close>

definition ref_integrity :: "store \<Rightarrow> bool" where
  "ref_integrity st =
     (list_all (\<lambda>a. list_ex (\<lambda>w. w_id w = a_workshop_id a) (workshops st) \<and>
                     list_ex (\<lambda>g. g_id g = a_guest_id a) (guests st)) (attendance st) \<and>
      list_all (\<lambda>v. list_ex (\<lambda>w. w_id w = v_workshop_id v) (workshops st) \<and>
                     list_ex (\<lambda>g. g_id g = v_guest_id v) (guests st)) (vip_access st))"

text \<open>
  A workshop that is not VIP has no capacity; a VIP workshop has a capacity that is not
  0 and is at most 31 (the creation request is refused for a VIP workshop only when
  \<^verbatim>\<open>!maxCapacity || maxCapacity > 31\<close>, so a negative or a fractional capacity passes).
\<close>

definition capacity_ok :: "store \<Rightarrow> bool" where
  "capacity_ok st =
     list_all (\<lambda>w. if w_is_vip w = 0 then w_max_capacity w = None
                    else w_is_vip w = 1 \<and> truthy_num (w_max_capacity w) \<and>
                         num_of (w_max_capacity w) \<le> 31) (workshops st)"

text \<open>
  The stores the server can reach: \<^verbatim>\<open>runMigrations\<close> drops and recreates the four
  tables when the server starts, and every later change is made by one of the ten
  mutating endpoints, called by any authenticated user with any request.
\<close>

inductive reachable :: "store \<Rightarrow> bool" where
  start: "reachable \<lparr>foreign_keys = fk, workshops = [], guests = [], attendance = [],
                      vip_access = []\<rparr>"
| post_workshops: "reachable st \<Longrightarrow> postWorkshops e usr wb st = (wr, st') \<Longrightarrow> reachable st'"
| put_workshop: "reachable st \<Longrightarrow> putWorkshop usr ident wb st = (ur, st') \<Longrightarrow> reachable st'"
| del_workshop: "reachable st \<Longrightarrow> delWorkshop usr ident st = (ur, st') \<Longrightarrow> reachable st'"
| post_guests: "reachable st \<Longrightarrow> postGuests e usr gb st = (gr, st') \<Longrightarrow> reachable st'"
| put_guest: "reachable st \<Longrightarrow> putGuest usr ident gb st = (ur, st') \<Longrightarrow> reachable st'"
| del_guest: "reachable st \<Longrightarrow> delGuest usr ident st = (ur, st') \<Longrightarrow> reachable st'"
| post_attendance: "reachable st \<Longrightarrow> postAttendance e usr ab st = (ar, st') \<Longrightarrow> reachable st'"
| del_attendance: "reachable st \<Longrightarrow> delAttendance usr ident st = (ur, st') \<Longrightarrow> reachable st'"
| post_vip_access:
    "reachable st \<Longrightarrow> postVipAccess e usr ident guestId st = (ur, st') \<Longrightarrow> reachable st'"
| del_vip_access:
    "reachable st \<Longrightarrow> delVipAccess usr ident guestId st = (ur, st') \<Longrightarrow> reachable st'"

text \<open>Y has checked in to B and holds a grant for B.\<close>

definition demoYB :: store where
  "demoYB = demo\<lparr>attendance := [row ''r1'' ''Y'' ''B'' ''09:00''],
                 vip_access := [grant ''v1'' ''Y'' ''B'']\<rparr>"

text \<open>
  A store built through the endpoints from the empty tables: the open workshop A (whose
  creation request carries a capacity of 5), the VIP workshop B of capacity 1, and the
  VIP guest Y.
\<close>

definition fresh :: store where
  "fresh = \<lparr>foreign_keys = False, workshops = [], guests = [], attendance = [],
            vip_access = []\<rparr>"

definition openBody :: workshop_body where
  "openBody = \<lparr>wb_name = Some ''Opening'', wb_description = None,
               wb_date = Some ''2025-05-01'', wb_location = Some ''Hall'',
               wb_isVip = False, wb_maxCapacity = Some 5\<rparr>"

definition vipBody :: workshop_body where
  "vipBody = \<lparr>wb_name = Some ''Lounge'', wb_description = None,
              wb_date = Some ''2025-05-02'', wb_location = Some ''Suite'',
              wb_isVip = True, wb_maxCapacity = Some 1\<rparr>"

definition renameBody :: workshop_body where
  "renameBody = \<lparr>wb_name = Some ''Salon'', wb_description = Some ''Renamed'',
                 wb_date = Some ''2025-05-09'', wb_location = Some ''Annex'',
                 wb_isVip = False, wb_maxCapacity = Some 40\<rparr>"

definition guestBody :: guest_body where
  "guestBody = \<lparr>gb_name = Some ''Yann'', gb_email = Some ''y@example.org'', gb_isVip = True\<rparr>"

definition envA :: env where
  "envA = \<lparr>new_id = ''A'', now = ''07:00''\<rparr>"

definition envB :: env where
  "envB = \<lparr>new_id = ''B'', now = ''07:10''\<rparr>"

definition envY :: env where
  "envY = \<lparr>new_id = ''Y'', now = ''07:20''\<rparr>"

definition built :: store where
  "built = snd (postGuests envY admin guestBody
             (snd (postWorkshops envB admin vipBody
                (snd (postWorkshops envA admin openBody fresh)))))"

text \<open>
  The same store after guest Z has been created (\<^verbatim>\<open>crowd1\<close>), Y has checked in to B
  (\<^verbatim>\<open>crowd2\<close>), Y has been deleted (\<^verbatim>\<open>crowd3\<close>) and Z has checked in to B
  (\<^verbatim>\<open>crowd4\<close>).
\<close>

definition guestBodyZ :: guest_body where
  "guestBodyZ = \<lparr>gb_name = Some ''Zoe'', gb_email = Some ''z@example.org'', gb_isVip = True\<rparr>"

definition envZ :: env where
  "envZ = \<lparr>new_id = ''Z'', now = ''07:30''\<rparr>"

definition crowd1 :: store where
  "crowd1 = snd (postGuests envZ admin guestBodyZ built)"

definition crowd2 :: store where
  "crowd2 = snd (postAttendance env1 scanner (scan ''Y'' ''B'') crowd1)"

definition crowd3 :: store where
  "crowd3 = snd (delGuest admin ''Y'' crowd2)"

definition crowd4 :: store where
  "crowd4 = snd (postAttendance env2 scanner (scan ''Z'' ''B'') crowd3)"

text \<open>
  The store \<^verbatim>\<open>crowd1\<close> after the VIP workshop H has been created with capacity 1.5
  (\<^verbatim>\<open>half1\<close>) and after Y and then Z have checked in to H.
\<close>

definition halfBody :: workshop_body where
  "halfBody = \<lparr>wb_name = Some ''Studio'', wb_description = None,
               wb_date = Some ''2025-05-05'', wb_location = Some ''Loft'',
               wb_isVip = True, wb_maxCapacity = Some (3 / 2)\<rparr>"

definition envH :: env where
  "envH = \<lparr>new_id = ''H'', now = ''07:40''\<rparr>"

definition half1 :: store where
  "half1 = snd (postWorkshops envH admin halfBody crowd1)"

definition half2 :: store where
  "half2 = snd (postAttendance env1 scanner (scan ''Y'' ''H'') half1)"

definition half3 :: store where
  "half3 = snd (postAttendance env2 scanner (scan ''Z'' ''H'') half2)"

section \<open>Properties of the attendance recorder\<close>

lemma sort_key_Nil_iff: "(sort_key f xs = []) = (xs = [])"
  using length_sort [of f xs] by (cases xs) auto

lemma postAttendance_Err:
  assumes "postAttendance e usr body st = (Err c m, st')"
  shows "st' = st"
  using assms
  by (auto simp: postAttendance_def Let_def split: if_splits option.splits sum.splits prod.splits)

lemma postAttendance_Ok:
  assumes "postAttendance e usr body st = (Ok c r, st')"
  shows "c = 201 \<and> st' = st\<lparr>attendance := attendance st @ [r]\<rparr> \<and>
         a_guest_id r = str_of (b_guestId body) \<and> a_workshop_id r = str_of (b_workshopId body) \<and>
         a_id r = new_id e \<and> a_created_by r = Some (u_id usr) \<and>
         getAttendanceRecord st (str_of (b_guestId body)) (str_of (b_workshopId body)) = None"
  using assms
  by (auto simp: postAttendance_def createAttendance_def Let_def
      split: if_splits option.splits sum.splits prod.splits)

text \<open>
  C9. A call of the check-in endpoint leaves the workshops, the guests, the VIP grants and
  the connection setting as they were, whatever its outcome. When it answers 201 (the
  only success status) the attendance table has grown by exactly the returned row; on
  every error answer the whole store is unchanged.
\<close>

theorem recordCheckIn_frame:
  assumes "postAttendance e usr body st = (res, st')"
  shows "foreign_keys st' = foreign_keys st \<and> workshops st' = workshops st \<and>
         guests st' = guests st \<and> vip_access st' = vip_access st \<and>
         (case res of
            Ok c r \<Rightarrow> c = 201 \<and> attendance st' = attendance st @ [r]
          | Err c m \<Rightarrow> attendance st' = attendance st \<and> st' = st)"
proof (cases res)
  case (Ok c r)
  with assms postAttendance_Ok [of e usr body st c r st'] show ?thesis by simp
next
  case (Err c m)
  with assms postAttendance_Err [of e usr body st c m st'] show ?thesis by simp
qed

theorem recordCheckIn_frame_witness:
  "postAttendance env1 admin (scan ''X'' ''A'') demo
     = (Ok 201 (row ''r1'' ''X'' ''A'' ''09:00''),
        demo\<lparr>attendance := [row ''r1'' ''X'' ''A'' ''09:00'']\<rparr>) \<and>
   workshops (demo\<lparr>attendance := [row ''r1'' ''X'' ''A'' ''09:00'']\<rparr>) = workshops demo \<and>
   attendance (demo\<lparr>attendance := [row ''r1'' ''X'' ''A'' ''09:00'']\<rparr>)
     = attendance demo @ [row ''r1'' ''X'' ''A'' ''09:00'']"
proof -
  have run: "postAttendance env1 admin (scan ''X'' ''A'') demo
     = (Ok 201 (row ''r1'' ''X'' ''A'' ''09:00''),
        demo\<lparr>attendance := [row ''r1'' ''X'' ''A'' ''09:00'']\<rparr>)"
    by code_simp
  from recordCheckIn_frame [OF run] show ?thesis
    using run by simp
qed

subsection \<open>A repeated check-in\<close>

lemma lookups_attendance_update [simp]:
  "getGuestById (st\<lparr>attendance := xs\<rparr>) g u = getGuestById st g u"
  "getWorkshopById (st\<lparr>attendance := xs\<rparr>) w u = getWorkshopById st w u"
  by (simp_all add: getGuestById_def getWorkshopById_def)

lemma lookups_vip_update [simp]:
  "getGuestById (st\<lparr>vip_access := vs\<rparr>) g u = getGuestById st g u"
  "getWorkshopById (st\<lparr>vip_access := vs\<rparr>) w u = getWorkshopById st w u"
  by (simp_all add: getGuestById_def getWorkshopById_def)

lemma find_append_new:
  "find P xs = None \<Longrightarrow> P x \<Longrightarrow> find P (xs @ [x]) = Some x"
  by (induction xs) (auto split: if_splits)

lemma find_None_filter: "find P xs = None \<Longrightarrow> filter P xs = []"
  by (induction xs) (auto split: if_splits)

lemma postAttendance_existing:
  assumes "getAttendanceRecord st (str_of (b_guestId body)) (str_of (b_workshopId body)) = Some a"
  shows "\<exists>c m. postAttendance e usr body st = (Err c m, st) \<and> c \<in> {400, 403, 404, 409}"
  using assms
  by (auto simp: postAttendance_def Let_def split: option.splits)

lemma postAttendance_Ok_gates:
  assumes "postAttendance e usr body st = (Ok c r, st')"
  shows "authorize [''admin'', ''scanner''] usr \<and> truthy_str (b_guestId body) \<and>
         truthy_str (b_workshopId body) \<and>
         (\<exists>guest workshop.
            getGuestById st (str_of (b_guestId body)) (scope_of usr) = Some guest \<and>
            getWorkshopById st (str_of (b_workshopId body)) (scope_of usr) = Some workshop \<and>
            \<not> (w_is_vip workshop \<noteq> 0 \<and> g_is_vip guest = 0) \<and>
            \<not> (w_is_vip workshop \<noteq> 0 \<and> truthy_num (w_max_capacity workshop) \<and>
               num_of (w_max_capacity workshop)
                 \<le> of_nat (length (getWorkshopAttendees st (str_of (b_workshopId body))))))"
  using assms
  by (auto simp: postAttendance_def Let_def js_or_def w_isVip_def w_maxCapacity_def g_isVip_def
      truthy_num_def
      split: if_splits option.splits sum.splits prod.splits)

lemma postAttendance_again:
  assumes first: "postAttendance e usr body st = (Ok c r, st1)"
    and same: "b_guestId body' = b_guestId body" "b_workshopId body' = b_workshopId body"
  shows "(postAttendance e' usr body' st1 = (Err 409 ''Attendance already recorded'', st1) \<or>
          postAttendance e' usr body' st1
            = (Err 403 ''Workshop has reached maximum capacity'', st1)) \<and>
         length (filter (\<lambda>a. a_guest_id a = str_of (b_guestId body) \<and>
                              a_workshop_id a = str_of (b_workshopId body)) (attendance st1)) = 1"
proof -
  let ?g = "str_of (b_guestId body)" and ?w = "str_of (b_workshopId body)"
  let ?P = "\<lambda>a. a_guest_id a = ?g \<and> a_workshop_id a = ?w"
  from postAttendance_Ok [OF first]
  have st1: "st1 = st\<lparr>attendance := attendance st @ [r]\<rparr>"
    and r: "?P r" and none: "find ?P (attendance st) = None"
    by (simp_all add: getAttendanceRecord_def)
  from postAttendance_Ok_gates [OF first] obtain guest workshop where
    auth: "authorize [''admin'', ''scanner''] usr"
    and ids: "truthy_str (b_guestId body)" "truthy_str (b_workshopId body)"
    and g: "getGuestById st ?g (scope_of usr) = Some guest"
    and w: "getWorkshopById st ?w (scope_of usr) = Some workshop"
    and vip: "\<not> (w_is_vip workshop \<noteq> 0 \<and> g_is_vip guest = 0)"
    by blast
  have found: "getAttendanceRecord st1 ?g ?w = Some r"
    using find_append_new [OF none r] by (simp add: getAttendanceRecord_def st1)
  have count: "length (filter ?P (attendance st1)) = 1"
    using find_None_filter [OF none] r by (simp add: st1)
  have "postAttendance e' usr body' st1 = (Err 409 ''Attendance already recorded'', st1) \<or>
        postAttendance e' usr body' st1
          = (Err 403 ''Workshop has reached maximum capacity'', st1)"
    using auth ids g w vip found same
    by (simp add: postAttendance_def Let_def st1 js_or_def w_isVip_def w_maxCapacity_def
        g_isVip_def truthy_num_def)
  with count show ?thesis by simp
qed

subsection \<open>VIP workshops and grants\<close>

lemma postAttendance_nonvip_denied:
  assumes "authorize [''admin'', ''scanner''] usr"
    and "truthy_str (b_guestId body)" "truthy_str (b_workshopId body)"
    and "getGuestById st (str_of (b_guestId body)) (scope_of usr) = Some guest"
    and "getWorkshopById st (str_of (b_workshopId body)) (scope_of usr) = Some workshop"
    and "w_is_vip workshop \<noteq> 0" "g_is_vip guest = 0"
  shows "postAttendance e usr body st
           = (Err 403 ''Non-VIP guest cannot attend VIP workshops'', st)"
  using assms
  by (simp add: postAttendance_def Let_def js_or_def w_isVip_def g_isVip_def truthy_num_def)

lemma postVipAccess_Ok:
  assumes "postVipAccess e usr w g st = (Ok c u, st1)"
  shows "c = 201 \<and>
         st1 = st\<lparr>vip_access := vip_access st @
                 [\<lparr>v_id = new_id e, v_guest_id = str_of g, v_workshop_id = w\<rparr>]\<rparr> \<and>
         \<not> hasVipAccess st (str_of g) w"
  using assms
  by (auto simp: postVipAccess_def addVipAccess_def hasVipAccess_def Let_def
      split: if_splits option.splits sum.splits prod.splits)

lemma postVipAccess_Err:
  assumes "postVipAccess e usr w g st = (Err c m, st1)"
  shows "st1 = st"
  using assms
  by (auto simp: postVipAccess_def Let_def split: if_splits option.splits sum.splits prod.splits)

text \<open>
  C2, as the endpoint has it. A guest whose \<^verbatim>\<open>is_vip\<close> flag is 0 is refused at a VIP
  workshop with 403 \<^verbatim>\<open>Non-VIP guest cannot attend VIP workshops\<close> whatever the
  vip_access table holds: the endpoint never reads it. In particular the refusal stands
  after an administrator has granted the guest access to that workshop.
\<close>

theorem recordCheckIn_ignores_grants:
  assumes "authorize [''admin'', ''scanner''] usr"
    and "truthy_str (b_guestId body)" "truthy_str (b_workshopId body)"
    and "getGuestById st (str_of (b_guestId body)) (scope_of usr) = Some guest"
    and "getWorkshopById st (str_of (b_workshopId body)) (scope_of usr) = Some workshop"
    and "w_is_vip workshop \<noteq> 0" "g_is_vip guest = 0"
  shows "(\<forall>vs. postAttendance e usr body (st\<lparr>vip_access := vs\<rparr>)
                 = (Err 403 ''Non-VIP guest cannot attend VIP workshops'', st\<lparr>vip_access := vs\<rparr>)) \<and>
         (\<forall>e1 adm st1.
            postVipAccess e1 adm (str_of (b_workshopId body)) (b_guestId body) st = (Ok 201 (), st1)
            \<longrightarrow> hasVipAccess st1 (str_of (b_guestId body)) (str_of (b_workshopId body)) \<and>
                postAttendance e usr body st1
                  = (Err 403 ''Non-VIP guest cannot attend VIP workshops'', st1))"
proof (intro conjI allI impI)
  fix vs
  show "postAttendance e usr body (st\<lparr>vip_access := vs\<rparr>)
          = (Err 403 ''Non-VIP guest cannot attend VIP workshops'', st\<lparr>vip_access := vs\<rparr>)"
    by (rule postAttendance_nonvip_denied [where guest = guest and workshop = workshop])
       (use assms in simp_all)
next
  fix e1 adm st1
  assume grant: "postVipAccess e1 adm (str_of (b_workshopId body)) (b_guestId body) st
                   = (Ok 201 (), st1)"
  from postVipAccess_Ok [OF grant]
  have st1: "st1 = st\<lparr>vip_access := vip_access st @
      [\<lparr>v_id = new_id e1, v_guest_id = str_of (b_guestId body),
        v_workshop_id = str_of (b_workshopId body)\<rparr>]\<rparr>"
    by simp
  show "hasVipAccess st1 (str_of (b_guestId body)) (str_of (b_workshopId body))"
    by (simp add: st1 hasVipAccess_def)
  show "postAttendance e usr body st1
          = (Err 403 ''Non-VIP guest cannot attend VIP workshops'', st1)"
    unfolding st1
    by (rule postAttendance_nonvip_denied [where guest = guest and workshop = workshop])
       (use assms in simp_all)
qed

theorem recordCheckIn_ignores_grants_witness:
  "authorize [''admin'', ''scanner''] scanner \<and>
   truthy_str (b_guestId (scan ''X'' ''B'')) \<and> truthy_str (b_workshopId (scan ''X'' ''B'')) \<and>
   getGuestById demo ''X'' (scope_of scanner) = Some gX \<and>
   getWorkshopById demo ''B'' (scope_of scanner) = Some wsB \<and>
   w_is_vip wsB \<noteq> 0 \<and> g_is_vip gX = 0 \<and>
   postVipAccess envV admin ''B'' (Some ''X'') demo = (Ok 201 (), demoXB) \<and>
   hasVipAccess demoXB ''X'' ''B'' \<and>
   postAttendance env1 scanner (scan ''X'' ''B'') demoXB
     = (Err 403 ''Non-VIP guest cannot attend VIP workshops'', demoXB)"
proof -
  have ids: "str_of (b_guestId (scan ''X'' ''B'')) = ''X''"
    "str_of (b_workshopId (scan ''X'' ''B'')) = ''B''" "b_guestId (scan ''X'' ''B'') = Some ''X''"
    by (simp_all add: scan_def str_of_def)
  have h: "authorize [''admin'', ''scanner''] scanner"
    "truthy_str (b_guestId (scan ''X'' ''B''))" "truthy_str (b_workshopId (scan ''X'' ''B''))"
    "getGuestById demo (str_of (b_guestId (scan ''X'' ''B''))) (scope_of scanner) = Some gX"
    "getWorkshopById demo (str_of (b_workshopId (scan ''X'' ''B''))) (scope_of scanner) = Some wsB"
    "w_is_vip wsB \<noteq> 0" "g_is_vip gX = 0"
    by code_simp+
  have grant: "postVipAccess envV admin ''B'' (Some ''X'') demo = (Ok 201 (), demoXB)"
    by code_simp
  from recordCheckIn_ignores_grants [OF h, of env1] grant ids
  have "hasVipAccess demoXB ''X'' ''B'' \<and>
        postAttendance env1 scanner (scan ''X'' ''B'') demoXB
          = (Err 403 ''Non-VIP guest cannot attend VIP workshops'', demoXB)"
    by simp
  with h grant ids show ?thesis by simp
qed

text \<open>
  The claim as stated fails: X is refused at B, is then granted access to B, and is
  refused again.
\<close>

theorem recordCheckIn_grant_counterexample:
  "g_is_vip gX = 0 \<and> w_is_vip wsB = 1 \<and>
   postAttendance env1 scanner (scan ''X'' ''B'') demo
     = (Err 403 ''Non-VIP guest cannot attend VIP workshops'', demo) \<and>
   postVipAccess envV admin ''B'' (Some ''X'') demo = (Ok 201 (), demoXB) \<and>
   hasVipAccess demoXB ''X'' ''B'' \<and>
   postAttendance env1 scanner (scan ''X'' ''B'') demoXB
     = (Err 403 ''Non-VIP guest cannot attend VIP workshops'', demoXB)"
  by code_simp

lemma addVipAccess_existing:
  assumes "hasVipAccess st g w"
  shows "\<exists>m. addVipAccess st i g w = Inl m"
  using assms by (simp add: addVipAccess_def hasVipAccess_def)

text \<open>
  C5, as the endpoint has it. Granting a pair that already has a grant leaves the store
  unchanged and is answered with an error status, never with a success; when every check
  of the handler passes, the INSERT violates UNIQUE(guest_id, workshop_id) and the answer
  is 500 \<^verbatim>\<open>Failed to grant VIP access: ...\<close>.
\<close>

theorem grantVip_existing_fails:
  assumes "hasVipAccess st (str_of guestId) workshopId"
  shows "(\<exists>c m. postVipAccess e usr workshopId guestId st = (Err c m, st) \<and>
                 c \<in> {400, 403, 404, 500}) \<and>
         (\<forall>workshop guest.
            authorize [''admin''] usr \<and> workshopId \<noteq> [] \<and> truthy_str guestId \<and>
            getWorkshopById st workshopId (Some (u_id usr)) = Some workshop \<and>
            w_is_vip workshop \<noteq> 0 \<and>
            (w_max_capacity workshop = None \<or>
             of_nat (getVipWorkshopCount st workshopId) < num_of (w_max_capacity workshop)) \<and>
            getGuestById st (str_of guestId) (Some (u_id usr)) = Some guest
            \<longrightarrow> (\<exists>m. postVipAccess e usr workshopId guestId st
                        = (Err 500 (''Failed to grant VIP access: '' @ m), st)))"
proof (intro conjI allI impI)
  from addVipAccess_existing [OF assms] obtain m
    where "addVipAccess st (new_id e) (str_of guestId) workshopId = Inl m" by blast
  then show "\<exists>c m. postVipAccess e usr workshopId guestId st = (Err c m, st) \<and>
                 c \<in> {400, 403, 404, 500}"
    by (auto simp: postVipAccess_def Let_def split: option.splits)
next
  fix workshop guest
  assume h: "authorize [''admin''] usr \<and> workshopId \<noteq> [] \<and> truthy_str guestId \<and>
            getWorkshopById st workshopId (Some (u_id usr)) = Some workshop \<and>
            w_is_vip workshop \<noteq> 0 \<and>
            (w_max_capacity workshop = None \<or>
             of_nat (getVipWorkshopCount st workshopId) < num_of (w_max_capacity workshop)) \<and>
            getGuestById st (str_of guestId) (Some (u_id usr)) = Some guest"
  from addVipAccess_existing [OF assms] obtain m
    where "addVipAccess st (new_id e) (str_of guestId) workshopId = Inl m" by blast
  with h show "\<exists>m. postVipAccess e usr workshopId guestId st
                        = (Err 500 (''Failed to grant VIP access: '' @ m), st)"
    by (auto simp: postVipAccess_def Let_def js_or_def w_isVip_def w_maxCapacity_def
        truthy_num_def num_of_def split: option.splits)
qed

theorem grantVip_existing_fails_witness:
  "hasVipAccess demoYC ''Y'' ''C'' \<and>
   authorize [''admin''] admin \<and>
   getWorkshopById demoYC ''C'' (Some (u_id admin)) = Some wsC \<and> w_is_vip wsC \<noteq> 0 \<and>
   of_nat (getVipWorkshopCount demoYC ''C'') < num_of (w_max_capacity wsC) \<and>
   getGuestById demoYC ''Y'' (Some (u_id admin)) = Some gY \<and>
   (\<exists>m. postVipAccess envV2 admin ''C'' (Some ''Y'') demoYC
           = (Err 500 (''Failed to grant VIP access: '' @ m), demoYC))"
proof -
  have s: "str_of (Some ''Y'') = ''Y''" "truthy_str (Some ''Y'')"
    by (simp_all add: str_of_def truthy_str_def)
  have h: "hasVipAccess demoYC ''Y'' ''C''" "authorize [''admin''] admin"
    "getWorkshopById demoYC ''C'' (Some (u_id admin)) = Some wsC" "w_is_vip wsC \<noteq> 0"
    "of_nat (getVipWorkshopCount demoYC ''C'') < num_of (w_max_capacity wsC)"
    "getGuestById demoYC ''Y'' (Some (u_id admin)) = Some gY"
    by code_simp+
  from grantVip_existing_fails [where guestId = "Some ''Y''" and workshopId = "''C''"
      and st = demoYC and e = envV2 and usr = admin] h s
  have "\<exists>m. postVipAccess envV2 admin ''C'' (Some ''Y'') demoYC
           = (Err 500 (''Failed to grant VIP access: '' @ m), demoYC)"
    by simp
  with h show ?thesis by simp
qed

text \<open>The claim as stated fails: the second grant of (Y, C) is answered 500.\<close>

theorem grantVip_existing_counterexample:
  "hasVipAccess demoYC ''Y'' ''C'' \<and>
   postVipAccess envV2 admin ''C'' (Some ''Y'') demoYC
     = (Err 500 (''Failed to grant VIP access: '' @
          ''SQLITE_CONSTRAINT: UNIQUE constraint failed: vip_access.guest_id, vip_access.workshop_id''),
        demoYC)"
  by code_simp

section \<open>Properties of the analytics engine\<close>

lemma sum_list_indicator:
  "sum_list (map (\<lambda>x. if Q x then 1 else 0) xs) = length (filter Q xs)"
  by (induction xs) auto

lemma length_concat_filter_Cons:
  "length (concat (map (\<lambda>w. filter (\<lambda>a. P a w) (a # as)) ws))
     = length (filter (P a) ws) + length (concat (map (\<lambda>w. filter (\<lambda>a. P a w) as) ws))"
  by (induction ws) auto

lemma length_concat_filter_swap:
  "length (concat (map (\<lambda>a. filter (\<lambda>w. P a w) ws) as))
     = length (concat (map (\<lambda>w. filter (\<lambda>a. P a w) as) ws))"
proof (induction as)
  case Nil
  show ?case by (simp add: length_concat)
next
  case (Cons a as)
  have "length (concat (map (\<lambda>a. filter (\<lambda>w. P a w) ws) (a # as)))
          = length (filter (P a) ws) + length (concat (map (\<lambda>a. filter (\<lambda>w. P a w) ws) as))"
    by simp
  with Cons show ?case unfolding length_concat_filter_Cons by simp
qed

lemma distinct_map_filter_le1:
  "distinct (map f xs) \<Longrightarrow> length (filter (\<lambda>x. f x = v) xs) \<le> 1"
proof (induction xs)
  case Nil
  show ?case by simp
next
  case (Cons x xs)
  show ?case
  proof (cases "f x = v")
    case True
    with Cons.prems have "filter (\<lambda>y. f y = v) xs = []"
      by (auto simp: filter_empty_conv image_iff)
    with True show ?thesis by simp
  next
    case False
    with Cons show ?thesis by simp
  qed
qed

lemma attended_all:
  assumes uniq: "distinct (map (\<lambda>a. (a_workshop_id a, a_guest_id a)) (attendance st))"
    and every: "\<forall>w\<in>set (workshops st). w_user_id w = Some u \<longrightarrow>
                  (\<exists>a\<in>set (attendance st). a_guest_id a = g \<and> a_workshop_id a = w_id w)"
  shows "attendedWorkshops st g u = totalWorkshops st u"
proof -
  let ?own = "\<lambda>w. w_user_id w = Some u"
  have one: "length (filter (\<lambda>a. a_workshop_id a = w_id w \<and> ?own w)
                (filter (\<lambda>a. a_guest_id a = g) (attendance st))) = (if ?own w then 1 else 0)"
    if w: "w \<in> set (workshops st)" for w
  proof (cases "?own w")
    case False
    then show ?thesis by simp
  next
    case True
    let ?F = "filter (\<lambda>a. (a_workshop_id a, a_guest_id a) = (w_id w, g)) (attendance st)"
    from every w True obtain a where "a \<in> set (attendance st)" "a_guest_id a = g"
      "a_workshop_id a = w_id w" by blast
    then have "a \<in> set ?F" by simp
    then have "length ?F \<noteq> 0" by (metis length_0_conv empty_iff list.set(1))
    moreover have "length ?F \<le> 1" by (rule distinct_map_filter_le1 [OF uniq])
    ultimately have "length ?F = 1" by arith
    moreover have "filter (\<lambda>a. a_workshop_id a = w_id w \<and> ?own w)
                (filter (\<lambda>a. a_guest_id a = g) (attendance st)) = ?F"
      using True by (simp add: conj_commute)
    ultimately show ?thesis using True by simp
  qed
  have "attendedWorkshops st g u
          = length (concat (map (\<lambda>w. filter (\<lambda>a. a_workshop_id a = w_id w \<and> ?own w)
                (filter (\<lambda>a. a_guest_id a = g) (attendance st))) (workshops st)))"
    unfolding attendedWorkshops_def by (rule length_concat_filter_swap)
  also have "\<dots> = sum_list (map (\<lambda>w. if ?own w then 1 else 0) (workshops st))"
    using one by (simp add: length_concat comp_def cong: map_cong)
  also have "\<dots> = totalWorkshops st u"
    by (simp add: sum_list_indicator totalWorkshops_def)
  finally show ?thesis .
qed


lemma percentage_ge_iff:
  "(c \<le> calculateGuestAttendancePercentage st g u) \<longleftrightarrow>
     (if totalWorkshops st u = 0 then c \<le> 0
      else c * of_nat (totalWorkshops st u) \<le> 100 * of_nat (attendedWorkshops st g u))"
  by (simp add: calculateGuestAttendancePercentage_def pos_le_divide_eq mult.commute)

text \<open>
  C6. For a guest the caller owns, the eligibility endpoint answers with the percentage
  that the percentage endpoint reports and with \<^verbatim>\<open>eligible = (percentage >= 70)\<close>: the
  guest is eligible exactly when the percentage is at least 70, the value 70 included.
  In counts: the owner has a workshop and 70 times the owner's workshops is at most 100
  times the attended ones.
\<close>

theorem eligible_iff_seventy:
  assumes "authorize [''admin''] usr"
    and "getGuestById st guestId (Some (u_id usr)) = Some guest"
  shows "\<exists>p. getGuestPercentage usr guestId st = Ok 200 p \<and>
             getGuestEligible usr guestId st = Ok 200 (70 \<le> p, p) \<and>
             (70 \<le> p \<longleftrightarrow> totalWorkshops st (u_id usr) \<noteq> 0 \<and>
                70 * totalWorkshops st (u_id usr) \<le> 100 * attendedWorkshops st guestId (u_id usr))"
proof -
  let ?p = "calculateGuestAttendancePercentage st guestId (u_id usr)"
  have "(70 \<le> ?p) \<longleftrightarrow> totalWorkshops st (u_id usr) \<noteq> 0 \<and>
          (70::rat) * of_nat (totalWorkshops st (u_id usr))
            \<le> 100 * of_nat (attendedWorkshops st guestId (u_id usr))"
    by (simp add: percentage_ge_iff)
  also have "(70::rat) * of_nat (totalWorkshops st (u_id usr))
            \<le> 100 * of_nat (attendedWorkshops st guestId (u_id usr)) \<longleftrightarrow>
        70 * totalWorkshops st (u_id usr) \<le> 100 * attendedWorkshops st guestId (u_id usr)"
    by (metis (no_types) of_nat_le_iff of_nat_mult of_nat_numeral)
  finally have "(70 \<le> ?p) \<longleftrightarrow> totalWorkshops st (u_id usr) \<noteq> 0 \<and>
      70 * totalWorkshops st (u_id usr) \<le> 100 * attendedWorkshops st guestId (u_id usr)" .
  with assms show ?thesis
    by (simp add: getGuestPercentage_def getGuestEligible_def Let_def)
qed

theorem eligible_iff_seventy_witness:
  "authorize [''admin''] admin \<and> getGuestById (series 10 7) ''X'' (Some (u_id admin)) = Some gX \<and>
   getGuestPercentage admin ''X'' (series 10 7) = Ok 200 70 \<and>
   getGuestEligible admin ''X'' (series 10 7) = Ok 200 (True, 70) \<and>
   getGuestEligible admin ''X'' (series 10 6) = Ok 200 (False, 60)"
proof -
  have h: "authorize [''admin''] admin"
    "getGuestById (series 10 7) ''X'' (Some (u_id admin)) = Some gX"
    by code_simp+
  have p: "getGuestPercentage admin ''X'' (series 10 7) = Ok 200 70"
    by code_simp
  have q: "getGuestEligible admin ''X'' (series 10 6) = Ok 200 (False, 60)"
    by code_simp
  from eligible_iff_seventy [OF h] p
  have "getGuestEligible admin ''X'' (series 10 7) = Ok 200 (True, 70)"
    by auto
  with h p q show ?thesis by simp
qed

subsection \<open>Rounding to a double\<close>

lemma round_even_close: "\<bar>of_int (round_even y) - y\<bar> \<le> 1 / 2"
proof -
  have "of_int \<lfloor>y\<rfloor> \<le> y" "y < of_int \<lfloor>y\<rfloor> + 1" by linarith+
  then show ?thesis
    by (auto simp: round_even_def Let_def)
qed

lemma bitlen_pos: "0 < x \<Longrightarrow> 1 \<le> bitlen x"
  using bitlen_eq_zero_iff [of x] bitlen_nonneg [of x] by linarith

lemma ilog2_lower:
  assumes "0 < x"
  shows "2 powi (ilog2 x) \<le> x"
proof (cases "1 \<le> x")
  case True
  then have pos: "0 < \<lfloor>x\<rfloor>" by linarith
  from bitlen_bounds [OF pos] have "2 ^ nat (bitlen \<lfloor>x\<rfloor> - 1) \<le> \<lfloor>x\<rfloor>" by simp
  then have "(of_int (2 ^ nat (bitlen \<lfloor>x\<rfloor> - 1)) :: rat) \<le> of_int \<lfloor>x\<rfloor>"
    by (simp only: of_int_le_iff)
  also have "\<dots> \<le> x" by linarith
  finally have "(2::rat) ^ nat (bitlen \<lfloor>x\<rfloor> - 1) \<le> x" by simp
  moreover have "0 \<le> bitlen \<lfloor>x\<rfloor> - 1" using bitlen_pos [OF pos] by simp
  ultimately show ?thesis using True by (simp add: ilog2_def power_int_def)
next
  case False
  with assms have gt: "1 < 1 / x" by simp
  then have pos: "0 < \<lceil>1 / x\<rceil> - 1" by linarith
  let ?n = "bitlen (\<lceil>1 / x\<rceil> - 1)"
  from bitlen_bounds [OF pos] have "\<lceil>1 / x\<rceil> - 1 < 2 ^ nat ?n" by simp
  then have "\<lceil>1 / x\<rceil> \<le> 2 ^ nat ?n" by simp
  then have "(of_int \<lceil>1 / x\<rceil> :: rat) \<le> of_int (2 ^ nat ?n)"
    by (simp only: of_int_le_iff)
  moreover have "1 / x \<le> of_int \<lceil>1 / x\<rceil>" by linarith
  ultimately have "1 / x \<le> of_int (2 ^ nat ?n)" by (rule order_trans [rotated])
  then have "1 / x \<le> (2::rat) ^ nat ?n" by simp
  with assms have "1 / 2 ^ nat ?n \<le> x"
    by (simp add: field_simps)
  moreover have "1 \<le> ?n" by (rule bitlen_pos [OF pos])
  ultimately show ?thesis using False
    by (simp add: ilog2_def power_int_def inverse_eq_divide power_one_over)
qed

lemma ilog2_upper:
  assumes "0 < x"
  shows "x < 2 powi (ilog2 x + 1)"
proof (cases "1 \<le> x")
  case True
  then have pos: "0 < \<lfloor>x\<rfloor>" by linarith
  let ?n = "bitlen \<lfloor>x\<rfloor>"
  from bitlen_bounds [OF pos] have "\<lfloor>x\<rfloor> + 1 \<le> 2 ^ nat ?n" by simp
  then have "(of_int (\<lfloor>x\<rfloor> + 1) :: rat) \<le> of_int (2 ^ nat ?n)"
    by (simp only: of_int_le_iff)
  moreover have "x < of_int (\<lfloor>x\<rfloor> + 1)" by linarith
  ultimately have "x < (2::rat) ^ nat ?n" by simp
  moreover have "0 \<le> ?n" by (rule bitlen_nonneg)
  ultimately show ?thesis using True by (simp add: ilog2_def power_int_def)
next
  case False
  with assms have gt: "1 < 1 / x" by simp
  then have pos: "0 < \<lceil>1 / x\<rceil> - 1" by linarith
  let ?n = "bitlen (\<lceil>1 / x\<rceil> - 1)"
  from bitlen_bounds [OF pos] have "2 ^ nat (?n - 1) \<le> \<lceil>1 / x\<rceil> - 1" by simp
  then have "(of_int (2 ^ nat (?n - 1)) :: rat) \<le> of_int (\<lceil>1 / x\<rceil> - 1)"
    by (simp only: of_int_le_iff)
  moreover have "of_int (\<lceil>1 / x\<rceil> - 1) < 1 / x" by linarith
  ultimately have "(2::rat) ^ nat (?n - 1) < 1 / x" by simp
  with assms have lt: "x < 1 / 2 ^ nat (?n - 1)"
    by (simp add: field_simps)
  have n1: "1 \<le> ?n" by (rule bitlen_pos [OF pos])
  show ?thesis
  proof (cases "?n = 1")
    case True
    with lt False show ?thesis by (simp add: ilog2_def)
  next
    case F: False
    with n1 have "\<not> 0 \<le> - ?n + 1" "nat (- (- ?n + 1)) = nat (?n - 1)" by simp_all
    with lt False show ?thesis
      by (simp add: ilog2_def power_int_def inverse_eq_divide power_one_over)
  qed
qed

lemma to_double_error: "\<bar>to_double x - x\<bar> \<le> \<bar>x\<bar> / 2 ^ 53"
proof (cases "x = 0")
  case True
  then show ?thesis by (simp add: to_double_def)
next
  case False
  define e where "e = ilog2 \<bar>x\<bar>"
  define u :: rat where "u = 2 powi (e - 52)"
  have u: "0 < u" by (simp add: u_def)
  have td: "to_double x = of_int (round_even (x / u)) * u"
    using False by (simp add: to_double_def e_def u_def Let_def)
  have "(of_int (round_even (x / u)) - x / u) * u = to_double x - x"
    using u by (simp add: td left_diff_distrib)
  then have "\<bar>to_double x - x\<bar> = \<bar>(of_int (round_even (x / u)) - x / u) * u\<bar>"
    by simp
  also have "\<dots> = \<bar>of_int (round_even (x / u)) - x / u\<bar> * u"
    using u by (simp only: abs_mult abs_of_pos)
  also have "\<dots> \<le> 1 / 2 * u"
    using round_even_close [of "x / u"] u by (simp only: mult_right_mono less_imp_le)
  also have "1 / 2 * u = 2 powi e / 2 ^ 53"
    by (simp add: u_def power_int_diff)
  also have "\<dots> \<le> \<bar>x\<bar> / 2 ^ 53"
    using ilog2_lower [of "\<bar>x\<bar>"] False by (simp add: e_def divide_right_mono)
  finally show ?thesis .
qed

lemma round_even_of_int: "round_even (of_int k) = k"
  by (simp add: round_even_def)

lemma to_double_eq_0_iff: "to_double x = 0 \<longleftrightarrow> x = 0"
proof
  assume z: "to_double x = 0"
  show "x = 0"
  proof (rule ccontr)
    assume "x \<noteq> 0"
    then have "\<bar>x\<bar> / 2 ^ 53 < \<bar>x\<bar>" by (simp add: field_simps)
    with to_double_error [of x] z show False by simp
  qed
next
  assume "x = 0"
  then show "to_double x = 0" by (simp add: to_double_def)
qed

lemma to_double_of_nat:
  assumes "n < 2 ^ 53"
  shows "to_double (of_nat n) = of_nat n"
proof (cases "n = 0")
  case True
  then show ?thesis by (simp add: to_double_def)
next
  case False
  define x :: rat where "x = of_nat n"
  define e where "e = ilog2 x"
  have "(of_nat n :: rat) < of_nat (2 ^ 53)"
    using assms by (simp only: of_nat_less_iff)
  then have x2: "x < 2 ^ 53"
    by (simp only: x_def of_nat_power of_nat_numeral)
  have x: "0 < x" "\<bar>x\<bar> = x"
    using False by (simp_all add: x_def)
  have "e \<le> 52"
  proof (rule ccontr)
    assume "\<not> e \<le> 52"
    then have "53 \<le> e" by simp
    then have "(2::rat) powi 53 \<le> 2 powi e" by (intro power_int_increasing) simp_all
    also have "\<dots> \<le> x" unfolding e_def by (rule ilog2_lower [OF x(1)])
    finally show False using x2 by simp
  qed
  define k where "k = nat (52 - e)"
  have u: "(2::rat) powi (e - 52) = 1 / 2 ^ k"
    using \<open>e \<le> 52\<close> by (simp add: k_def power_int_def inverse_eq_divide power_one_over)
  have "x / (1 / 2 ^ k) = of_int (int n * 2 ^ k)"
    by (simp add: x_def)
  then have "round_even (x / (1 / 2 ^ k)) = int n * 2 ^ k"
    by (simp only: round_even_of_int)
  then have "to_double x = of_int (int n * 2 ^ k) * (1 / 2 ^ k)"
    using x by (simp add: to_double_def Let_def e_def [symmetric] u)
  then show ?thesis by (simp add: x_def)
qed

lemma percentage_error:
  assumes "0 \<le> q"
  shows "\<bar>to_double (to_double q * 100) - q * 100\<bar> \<le> q * 100 / 2 ^ 51"
proof -
  define q1 where "q1 = to_double q"
  define p where "p = to_double (q1 * 100)"
  have a: "\<bar>q1 - q\<bar> \<le> q / 2 ^ 53"
    using to_double_error [of q] assms by (simp add: q1_def)
  with assms have b: "\<bar>q1\<bar> \<le> q + q / 2 ^ 53" by linarith
  have "\<bar>p - q1 * 100\<bar> \<le> \<bar>q1 * 100\<bar> / 2 ^ 53"
    unfolding p_def by (rule to_double_error)
  also have "\<dots> = \<bar>q1\<bar> * 100 / 2 ^ 53" by (simp add: abs_mult)
  also have "\<dots> \<le> (q + q / 2 ^ 53) * 100 / 2 ^ 53"
    using b by (simp add: divide_right_mono)
  finally have c: "\<bar>p - q1 * 100\<bar> \<le> (q + q / 2 ^ 53) * 100 / 2 ^ 53" .
  have "\<bar>q1 - q\<bar> * 100 = \<bar>q1 * 100 - q * 100\<bar>"
    by (simp add: abs_if)
  moreover have "\<bar>p - q * 100\<bar> \<le> \<bar>p - q1 * 100\<bar> + \<bar>q1 * 100 - q * 100\<bar>"
    by (rule abs_triangle_ineq4 [of "p - q1 * 100" "q * 100 - q1 * 100", simplified,
          unfolded abs_minus_commute [of "q * 100" "q1 * 100"]])
  ultimately have "\<bar>p - q * 100\<bar> \<le> \<bar>p - q1 * 100\<bar> + \<bar>q1 - q\<bar> * 100"
    by simp
  also have "\<dots> \<le> (q + q / 2 ^ 53) * 100 / 2 ^ 53 + q / 2 ^ 53 * 100"
    using a c by (intro add_mono mult_right_mono) simp_all
  also have "\<dots> \<le> q * 100 / 2 ^ 51"
    using assms by (simp add: field_simps)
  finally show ?thesis by (simp add: p_def q1_def)
qed

lemma to_double_1: "to_double 1 = 1"
  by code_simp

lemma to_double_100: "to_double 100 = 100"
  by code_simp

text \<open>Rounding is monotone, and a positive number and its double have the same exponent.\<close>

lemma round_even_bounds: "\<lfloor>y\<rfloor> \<le> round_even y" "round_even y \<le> \<lfloor>y\<rfloor> + 1"
  by (simp_all add: round_even_def Let_def)

lemma round_even_mono:
  assumes "x \<le> y"
  shows "round_even x \<le> round_even y"
proof (cases "\<lfloor>x\<rfloor> = \<lfloor>y\<rfloor>")
  case True
  with assms show ?thesis by (auto simp: round_even_def Let_def)
next
  case False
  with assms have "\<lfloor>x\<rfloor> + 1 \<le> \<lfloor>y\<rfloor>"
    using floor_mono [OF assms] by linarith
  with round_even_bounds(2) [of x] round_even_bounds(1) [of y] show ?thesis by linarith
qed

lemma ilog2_mono:
  assumes "0 < x" "x \<le> y"
  shows "ilog2 x \<le> ilog2 y"
proof (rule ccontr)
  assume "\<not> ilog2 x \<le> ilog2 y"
  then have "ilog2 y + 1 \<le> ilog2 x" by simp
  then have "(2::rat) powi (ilog2 y + 1) \<le> 2 powi ilog2 x"
    by (intro power_int_increasing) simp_all
  also have "\<dots> \<le> x" by (rule ilog2_lower [OF assms(1)])
  finally have "2 powi (ilog2 y + 1) \<le> y" using assms(2) by simp
  moreover have "y < 2 powi (ilog2 y + 1)" using assms by (intro ilog2_upper) simp
  ultimately show False by simp
qed

lemma to_double_pos:
  assumes "0 < x"
  shows "to_double x = of_int (round_even (x / 2 powi (ilog2 x - 52))) * 2 powi (ilog2 x - 52)"
  using assms by (simp add: to_double_def Let_def)

lemma to_double_lower:
  assumes "0 < x"
  shows "2 powi ilog2 x \<le> to_double x"
proof -
  define u :: rat where "u = 2 powi (ilog2 x - 52)"
  have u: "0 < u" by (simp add: u_def)
  have "2 powi ilog2 x / u = of_int (2 ^ 52)"
    by (simp add: u_def power_int_diff)
  moreover have "2 powi ilog2 x / u \<le> x / u"
    using ilog2_lower [OF assms] u by (simp add: divide_right_mono)
  ultimately have "round_even (of_int (2 ^ 52)) \<le> round_even (x / u)"
    by (intro round_even_mono) simp
  then have "2 ^ 52 \<le> round_even (x / u)"
    by (simp only: round_even_of_int)
  then have "(of_int (2 ^ 52) :: rat) \<le> of_int (round_even (x / u))"
    by (simp only: of_int_le_iff)
  then have "of_int (2 ^ 52) * u \<le> of_int (round_even (x / u)) * u"
    using u by (simp only: mult_right_mono less_imp_le)
  moreover have "of_int (2 ^ 52) * u = 2 powi ilog2 x"
    by (simp add: u_def power_int_diff)
  ultimately show ?thesis
    by (simp only: to_double_pos [OF assms] u_def)
qed

lemma to_double_upper:
  assumes "0 < x"
  shows "to_double x \<le> 2 powi (ilog2 x + 1)"
proof -
  define u :: rat where "u = 2 powi (ilog2 x - 52)"
  have u: "0 < u" by (simp add: u_def)
  have "2 powi (ilog2 x + 1) / u = of_int (2 ^ 53)"
    by (simp add: u_def power_int_diff power_int_add)
  moreover have "x / u \<le> 2 powi (ilog2 x + 1) / u"
    using ilog2_upper [OF assms] u by (simp add: divide_right_mono)
  ultimately have "round_even (x / u) \<le> round_even (of_int (2 ^ 53))"
    by (intro round_even_mono) simp
  then have "round_even (x / u) \<le> 2 ^ 53"
    by (simp only: round_even_of_int)
  then have "(of_int (round_even (x / u)) :: rat) \<le> of_int (2 ^ 53)"
    by (simp only: of_int_le_iff)
  then have "of_int (round_even (x / u)) * u \<le> of_int (2 ^ 53) * u"
    using u by (simp only: mult_right_mono less_imp_le)
  moreover have "of_int (2 ^ 53) * u = 2 powi (ilog2 x + 1)"
    by (simp add: u_def power_int_diff power_int_add)
  ultimately show ?thesis
    by (simp only: to_double_pos [OF assms] u_def)
qed

lemma to_double_mono:
  assumes "0 \<le> x" "x \<le> y"
  shows "to_double x \<le> to_double y"
proof (cases "x = 0")
  case True
  show ?thesis
  proof (cases "y = 0")
    case True
    with \<open>x = 0\<close> show ?thesis by simp
  next
    case False
    with assms have "0 < y" by simp
    from to_double_lower [OF this] have "0 < to_double y"
      by (rule less_le_trans [rotated]) simp
    with \<open>x = 0\<close> show ?thesis by (simp add: to_double_def)
  qed
next
  case False
  with assms have x: "0 < x" and y: "0 < y" by simp_all
  show ?thesis
  proof (cases "ilog2 x = ilog2 y")
    case True
    define u :: rat where "u = 2 powi (ilog2 y - 52)"
    have u: "0 < u" by (simp add: u_def)
    have "x / u \<le> y / u" using assms u by (simp add: divide_right_mono)
    then have "(of_int (round_even (x / u)) :: rat) \<le> of_int (round_even (y / u))"
      by (simp only: of_int_le_iff round_even_mono)
    then have "of_int (round_even (x / u)) * u \<le> of_int (round_even (y / u)) * u"
      using u by (simp only: mult_right_mono less_imp_le)
    then show ?thesis
      by (simp only: to_double_pos [OF x] to_double_pos [OF y] True u_def)
  next
    case False
    with ilog2_mono [OF x assms(2)] have "ilog2 x + 1 \<le> ilog2 y" by simp
    then have "(2::rat) powi (ilog2 x + 1) \<le> 2 powi ilog2 y"
      by (intro power_int_increasing) simp_all
    with to_double_upper [OF x] to_double_lower [OF y] show ?thesis by linarith
  qed
qed

text \<open>
  The comparisons of a percentage with 70 and with 1 come out on the double as on the
  exact quotient, as long as the denominator is below \<^verbatim>\<open>2^48\<close>.
\<close>

lemma double_of_seven_tenths: "to_double (to_double (7 / 10) * 100) = 70"
  by code_simp

lemma double_of_one_hundredth: "to_double (to_double (1 / 100) * 100) = 1"
  by code_simp

lemma double_below_seventy: "to_double (70 - 1 / 2 ^ 46) = 70 - 1 / 2 ^ 46"
  by code_simp

lemma double_below_one: "to_double (1 - 1 / 2 ^ 53) = 1 - 1 / 2 ^ 53"
  by code_simp

lemma to_double_le_relative:
  assumes "0 \<le> q"
  shows "to_double q \<le> q * (1 + 1 / 2 ^ 53)"
  using to_double_error [of q] assms by (simp add: field_simps abs_if split: if_splits)

lemma percentage_compare:
  fixes A T :: nat
  assumes T: "0 < T" "T < 2 ^ 48"
  defines "p \<equiv> to_double (to_double (of_nat A / of_nat T) * 100)"
  shows "(70 \<le> p) \<longleftrightarrow> 70 * T \<le> 100 * A"
    and "(p < 1) \<longleftrightarrow> 100 * A < T"
proof -
  define q :: rat where "q = of_nat A / of_nat T"
  have q0: "0 \<le> q" by (simp add: q_def)
  have d0: "0 \<le> to_double q"
    using to_double_mono [of 0 q] q0 by (simp add: to_double_def)
  have t: "(0::rat) < of_nat T" using T by simp
  have "(of_nat T :: rat) < of_nat (2 ^ 48)" using T by (simp only: of_nat_less_iff)
  then have t48: "(of_nat T :: rat) < 2 ^ 48" by (simp only: of_nat_power of_nat_numeral)
  then have small: "1 / 2 ^ 48 < 1 / (of_nat T :: rat)"
    using t by (simp add: field_simps)
  have up: "to_double q * 100 \<le> q * (1 + 1 / 2 ^ 53) * 100"
    using to_double_le_relative [OF q0] by simp
  show "(70 \<le> p) \<longleftrightarrow> 70 * T \<le> 100 * A"
  proof
    assume "70 * T \<le> 100 * A"
    then have "(of_nat (70 * T) :: rat) \<le> of_nat (100 * A)" by (simp only: of_nat_le_iff)
    then have "7 / 10 \<le> q" using t by (simp add: q_def field_simps)
    then have "to_double (7 / 10) \<le> to_double q" by (intro to_double_mono) simp_all
    then have "to_double (7 / 10) * 100 \<le> to_double q * 100" by simp
    moreover have "0 \<le> to_double (7 / 10) * 100"
      using to_double_mono [of 0 "7 / 10"] by (simp add: to_double_def)
    ultimately have "to_double (to_double (7 / 10) * 100) \<le> p"
      unfolding p_def q_def [symmetric] by (intro to_double_mono)
    then show "70 \<le> p" by (simp only: double_of_seven_tenths)
  next
    assume p: "70 \<le> p"
    show "70 * T \<le> 100 * A"
    proof (rule ccontr)
      assume "\<not> 70 * T \<le> 100 * A"
      then have "10 * A + 1 \<le> 7 * T" by arith
      then have "(of_nat (10 * A + 1) :: rat) \<le> of_nat (7 * T)" by (simp only: of_nat_le_iff)
      then have "q \<le> 7 / 10 - 1 / 10 * (1 / of_nat T)"
        using t by (simp add: q_def field_simps)
      also have "\<dots> \<le> 7 / 10 - 1 / 10 * (1 / 2 ^ 48)"
        using small by simp
      finally have "q * (1 + 1 / 2 ^ 53) * 100
                      \<le> (7 / 10 - 1 / 10 * (1 / 2 ^ 48)) * (1 + 1 / 2 ^ 53) * 100"
        by simp
      also have "\<dots> \<le> 70 - 1 / 2 ^ 46" by simp
      finally have "to_double q * 100 \<le> 70 - 1 / 2 ^ 46" using up by simp
      then have "p \<le> to_double (70 - 1 / 2 ^ 46)"
        unfolding p_def q_def [symmetric] using d0 by (intro to_double_mono) simp_all
      then have "p < 70" by (simp only: double_below_seventy) simp
      with p show False by simp
    qed
  qed
  show "(p < 1) \<longleftrightarrow> 100 * A < T"
  proof
    assume "100 * A < T"
    then have "100 * A + 1 \<le> T" by simp
    then have "(of_nat (100 * A + 1) :: rat) \<le> of_nat T" by (simp only: of_nat_le_iff)
    then have "q \<le> 1 / 100 - 1 / 100 * (1 / of_nat T)"
      using t by (simp add: q_def field_simps)
    also have "\<dots> \<le> 1 / 100 - 1 / 100 * (1 / 2 ^ 48)"
      using small by simp
    finally have "q * (1 + 1 / 2 ^ 53) * 100
                    \<le> (1 / 100 - 1 / 100 * (1 / 2 ^ 48)) * (1 + 1 / 2 ^ 53) * 100"
      by simp
    also have "\<dots> \<le> 1 - 1 / 2 ^ 53" by simp
    finally have "to_double q * 100 \<le> 1 - 1 / 2 ^ 53" using up by simp
    then have "p \<le> to_double (1 - 1 / 2 ^ 53)"
      unfolding p_def q_def [symmetric] using d0 by (intro to_double_mono) simp_all
    then show "p < 1" by (simp only: double_below_one) simp
  next
    assume p: "p < 1"
    show "100 * A < T"
    proof (rule ccontr)
      assume "\<not> 100 * A < T"
      then have "T \<le> 100 * A" by simp
      then have "(of_nat T :: rat) \<le> of_nat (100 * A)" by (simp only: of_nat_le_iff)
      then have "1 / 100 \<le> q" using t by (simp add: q_def field_simps)
      then have "to_double (1 / 100) \<le> to_double q" by (intro to_double_mono) simp_all
      then have "to_double (1 / 100) * 100 \<le> to_double q * 100" by simp
      moreover have "0 \<le> to_double (1 / 100) * 100"
        using to_double_mono [of 0 "1 / 100"] by (simp add: to_double_def)
      ultimately have "to_double (to_double (1 / 100) * 100) \<le> p"
        unfolding p_def q_def [symmetric] by (intro to_double_mono)
      then have "1 \<le> p" by (simp only: double_of_one_hundredth)
      with p show False by simp
    qed
  qed
qed

subsection \<open>The percentage of a guest\<close>

lemma length_filter_key:
  "distinct (map f ws) \<Longrightarrow>
     length (filter (\<lambda>w. v = f w \<and> Q w) ws) = (if \<exists>w\<in>set ws. f w = v \<and> Q w then 1 else 0)"
proof (induction ws)
  case Nil
  show ?case by simp
next
  case (Cons w ws)
  show ?case
  proof (cases "v = f w")
    case True
    with Cons.prems have "\<forall>y\<in>set ws. f y \<noteq> v" by (auto simp: image_iff)
    then have "filter (\<lambda>y. v = f y \<and> Q y) ws = []" by (auto simp: filter_empty_conv)
    with True \<open>\<forall>y\<in>set ws. f y \<noteq> v\<close> show ?thesis by auto
  next
    case False
    with Cons show ?thesis by auto
  qed
qed

lemma attended_rows:
  assumes "distinct (map w_id (workshops st))"
  shows "attendedWorkshops st g u
           = length (filter (\<lambda>a. a_guest_id a = g \<and>
                (\<exists>w\<in>set (workshops st). w_id w = a_workshop_id a \<and> w_user_id w = Some u))
                (attendance st))"
proof -
  have "length (concat (map (\<lambda>a. filter (\<lambda>w. a_workshop_id a = w_id w \<and> w_user_id w = Some u)
            (workshops st)) as))
          = length (filter (\<lambda>a. \<exists>w\<in>set (workshops st). w_id w = a_workshop_id a \<and>
                w_user_id w = Some u) as)" for as
    by (induction as) (simp_all add: length_filter_key [OF assms])
  from this [of "filter (\<lambda>a. a_guest_id a = g) (attendance st)"]
  show ?thesis by (simp add: attendedWorkshops_def)
qed

text \<open>
  The eligibility endpoint tests \<^verbatim>\<open>percentage >= 70\<close> and the certificate endpoint tests
  \<^verbatim>\<open>percentage < 1\<close>. For an owner with fewer than \<^verbatim>\<open>2^48\<close> workshops both tests
  give the same answer on the double as on the exact value on which the endpoints are
  modelled.
\<close>

lemma comparisons_in_doubles:
  assumes "totalWorkshops st u < 2 ^ 48" "attendedWorkshops st g u < 2 ^ 53"
  shows "(70 \<le> calculateGuestAttendancePercentage_js st g u)
           \<longleftrightarrow> (70 \<le> calculateGuestAttendancePercentage st g u)"
    and "(calculateGuestAttendancePercentage_js st g u < 1)
           \<longleftrightarrow> (calculateGuestAttendancePercentage st g u < 1)"
proof -
  let ?T = "totalWorkshops st u" and ?A = "attendedWorkshops st g u"
  have "(2::nat) ^ 48 < 2 ^ 53" by (rule power_strict_increasing) simp_all
  with assms(1) have "?T < 2 ^ 53" by (rule less_trans)
  then have c: "to_double (of_nat ?T) = of_nat ?T" "to_double (of_nat ?A) = of_nat ?A"
    using assms(2) by (simp_all only: to_double_of_nat)
  have js: "calculateGuestAttendancePercentage_js st g u
              = (if ?T = 0 then 0 else to_double (to_double (of_nat ?A / of_nat ?T) * 100))"
    by (simp add: calculateGuestAttendancePercentage_js_def Let_def c)
  have ex: "(70 \<le> calculateGuestAttendancePercentage st g u)
              \<longleftrightarrow> ?T \<noteq> 0 \<and> 70 * ?T \<le> 100 * ?A"
    "(calculateGuestAttendancePercentage st g u < 1) \<longleftrightarrow> ?T = 0 \<or> 100 * ?A < ?T"
  proof -
    have "(70::rat) * of_nat ?T \<le> 100 * of_nat ?A \<longleftrightarrow> 70 * ?T \<le> 100 * ?A"
      by (metis (no_types) of_nat_le_iff of_nat_mult of_nat_numeral)
    then show "(70 \<le> calculateGuestAttendancePercentage st g u)
              \<longleftrightarrow> ?T \<noteq> 0 \<and> 70 * ?T \<le> 100 * ?A"
      by (simp add: percentage_ge_iff)
    have "(100::rat) * of_nat ?A < of_nat ?T \<longleftrightarrow> 100 * ?A < ?T"
      by (metis (no_types) of_nat_less_iff of_nat_mult of_nat_numeral)
    then show "(calculateGuestAttendancePercentage st g u < 1) \<longleftrightarrow> ?T = 0 \<or> 100 * ?A < ?T"
      by (simp add: calculateGuestAttendancePercentage_def pos_divide_less_eq mult.commute)
  qed
  show "(70 \<le> calculateGuestAttendancePercentage_js st g u)
           \<longleftrightarrow> (70 \<le> calculateGuestAttendancePercentage st g u)"
    using percentage_compare(1) [of ?T ?A] assms(1) by (cases "?T = 0") (simp_all add: js ex)
  show "(calculateGuestAttendancePercentage_js st g u < 1)
           \<longleftrightarrow> (calculateGuestAttendancePercentage st g u < 1)"
    using percentage_compare(2) [of ?T ?A] assms(1) by (cases "?T = 0") (simp_all add: js ex)
qed

text \<open>
  C7. Let the workshop ids be unique, let \<^term>\<open>T\<close> be the number of workshops of the owner
  \<^term>\<open>u\<close> and \<^term>\<open>A\<close> the number of attendance rows of the guest \<^term>\<open>g\<close> at workshops of
  that owner. When \<^term>\<open>T\<close> is 0 the percentage is 0. Otherwise, for counts that a double
  holds exactly (below \<^verbatim>\<open>2^53\<close>), it is \<^verbatim>\<open>A / T * 100\<close> as JavaScript evaluates it, the
  quotient and the product each rounded to a double, which differs from the exact
  value of \<^verbatim>\<open>A / T * 100\<close> by at most that value divided by \<^verbatim>\<open>2^51\<close>. When the owner has
  a workshop, the guest has a row for every workshop of the owner and no pair of
  workshop and guest has two rows, the percentage is exactly 100.
\<close>

theorem guest_percentage_in_doubles:
  assumes "distinct (map w_id (workshops st))"
    and "T = length (filter (\<lambda>w. w_user_id w = Some u) (workshops st))"
    and "A = length (filter (\<lambda>a. a_guest_id a = g \<and>
                (\<exists>w\<in>set (workshops st). w_id w = a_workshop_id a \<and> w_user_id w = Some u))
                (attendance st))"
  shows "(T = 0 \<longrightarrow> calculateGuestAttendancePercentage_js st g u = 0) \<and>
         (T \<noteq> 0 \<and> T < 2 ^ 53 \<and> A < 2 ^ 53 \<longrightarrow>
            calculateGuestAttendancePercentage_js st g u
              = to_double (to_double (of_nat A / of_nat T) * 100) \<and>
            \<bar>calculateGuestAttendancePercentage_js st g u - of_nat A / of_nat T * 100\<bar>
              \<le> of_nat A / of_nat T * 100 / 2 ^ 51) \<and>
         (T \<noteq> 0 \<and>
          distinct (map (\<lambda>a. (a_workshop_id a, a_guest_id a)) (attendance st)) \<and>
          (\<forall>w\<in>set (workshops st). w_user_id w = Some u \<longrightarrow>
             (\<exists>a\<in>set (attendance st). a_guest_id a = g \<and> a_workshop_id a = w_id w))
          \<longrightarrow> calculateGuestAttendancePercentage_js st g u = 100)"
proof (intro conjI impI)
  have T: "totalWorkshops st u = T"
    by (simp add: totalWorkshops_def assms(2))
  have A: "attendedWorkshops st g u = A"
    by (simp add: attended_rows [OF assms(1)] assms(3))
  {
    assume "T = 0"
    then show "calculateGuestAttendancePercentage_js st g u = 0"
      by (simp add: calculateGuestAttendancePercentage_js_def T to_double_eq_0_iff)
  }
  {
    assume h: "T \<noteq> 0 \<and> T < 2 ^ 53 \<and> A < 2 ^ 53"
    then have "to_double (of_nat T) = of_nat T" "to_double (of_nat A) = of_nat A"
      by (simp_all only: to_double_of_nat)
    with h show v: "calculateGuestAttendancePercentage_js st g u
              = to_double (to_double (of_nat A / of_nat T) * 100)"
      by (simp add: calculateGuestAttendancePercentage_js_def T A Let_def)
    have "(0::rat) \<le> of_nat A / of_nat T" by simp
    then show "\<bar>calculateGuestAttendancePercentage_js st g u - of_nat A / of_nat T * 100\<bar>
              \<le> of_nat A / of_nat T * 100 / 2 ^ 51"
      unfolding v by (rule percentage_error)
  }
  {
    assume h: "T \<noteq> 0 \<and>
          distinct (map (\<lambda>a. (a_workshop_id a, a_guest_id a)) (attendance st)) \<and>
          (\<forall>w\<in>set (workshops st). w_user_id w = Some u \<longrightarrow>
             (\<exists>a\<in>set (attendance st). a_guest_id a = g \<and> a_workshop_id a = w_id w))"
    then have "attendedWorkshops st g u = totalWorkshops st u"
      by (intro attended_all) simp_all
    moreover have "to_double (of_nat T) \<noteq> 0"
      using h by (simp add: to_double_eq_0_iff)
    ultimately show "calculateGuestAttendancePercentage_js st g u = 100"
      by (simp add: calculateGuestAttendancePercentage_js_def T Let_def to_double_1 to_double_100)
  }
qed

theorem guest_percentage_in_doubles_witness:
  "distinct (map w_id (workshops (series 0 0))) \<and>
   length (filter (\<lambda>w. w_user_id w = Some 1) (workshops (series 0 0))) = 0 \<and>
   calculateGuestAttendancePercentage_js (series 0 0) ''X'' 1 = 0 \<and>
   distinct (map w_id (workshops (series 3 1))) \<and>
   length (filter (\<lambda>w. w_user_id w = Some 1) (workshops (series 3 1))) = 3 \<and>
   length (filter (\<lambda>a. a_guest_id a = ''X'' \<and>
      list_ex (\<lambda>w. w_id w = a_workshop_id a \<and> w_user_id w = Some 1) (workshops (series 3 1)))
      (attendance (series 3 1))) = 1 \<and>
   calculateGuestAttendancePercentage_js (series 3 1) ''X'' 1
     = 2345624805922133 / 70368744177664 \<and>
   calculateGuestAttendancePercentage (series 3 1) ''X'' 1 = 100 / 3 \<and>
   distinct (map w_id (workshops (series 3 3))) \<and>
   distinct (map (\<lambda>a. (a_workshop_id a, a_guest_id a)) (attendance (series 3 3))) \<and>
   list_all (\<lambda>w. list_ex (\<lambda>a. a_guest_id a = ''X'' \<and> a_workshop_id a = w_id w)
               (attendance (series 3 3))) (workshops (series 3 3)) \<and>
   calculateGuestAttendancePercentage_js (series 3 3) ''X'' 1 = 100"
proof -
  have d: "distinct (map w_id (workshops (series 0 0)))"
    "distinct (map w_id (workshops (series 3 1)))"
    "distinct (map w_id (workshops (series 3 3)))"
    by code_simp+
  have t: "length (filter (\<lambda>w. w_user_id w = Some 1) (workshops (series 0 0))) = 0"
    "length (filter (\<lambda>w. w_user_id w = Some 1) (workshops (series 3 1))) = 3"
    "length (filter (\<lambda>w. w_user_id w = Some 1) (workshops (series 3 3))) = 3"
    by code_simp+
  have a: "length (filter (\<lambda>a. a_guest_id a = ''X'' \<and>
      list_ex (\<lambda>w. w_id w = a_workshop_id a \<and> w_user_id w = Some 1) (workshops (series 3 1)))
      (attendance (series 3 1))) = 1"
    by code_simp
  then have a': "1 = length (filter (\<lambda>a. a_guest_id a = ''X'' \<and>
      (\<exists>w\<in>set (workshops (series 3 1)). w_id w = a_workshop_id a \<and> w_user_id w = Some 1))
      (attendance (series 3 1)))"
    by (simp add: list_ex_iff)
  have v: "to_double (to_double (of_nat 1 / of_nat 3) * 100) = 2345624805922133 / 70368744177664"
    by code_simp
  have x: "calculateGuestAttendancePercentage (series 3 1) ''X'' 1 = 100 / 3"
    by code_simp
  have u: "distinct (map (\<lambda>a. (a_workshop_id a, a_guest_id a)) (attendance (series 3 3)))"
    by code_simp
  have e: "list_all (\<lambda>w. list_ex (\<lambda>a. a_guest_id a = ''X'' \<and> a_workshop_id a = w_id w)
               (attendance (series 3 3))) (workshops (series 3 3))"
    by code_simp
  then have e': "\<forall>w\<in>set (workshops (series 3 3)). w_user_id w = Some 1 \<longrightarrow>
      (\<exists>a\<in>set (attendance (series 3 3)). a_guest_id a = ''X'' \<and> a_workshop_id a = w_id w)"
    by (simp add: list_all_iff list_ex_iff)
  have small: "(3::nat) < 2 ^ 53" "(1::nat) < 2 ^ 53"
    by simp_all
  from guest_percentage_in_doubles [OF d(1) t(1) [symmetric] refl]
  have r0: "calculateGuestAttendancePercentage_js (series 0 0) ''X'' 1 = 0"
    by simp
  from guest_percentage_in_doubles [OF d(2) t(2) [symmetric] a'] small v
  have r1: "calculateGuestAttendancePercentage_js (series 3 1) ''X'' 1
     = 2345624805922133 / 70368744177664"
    by simp
  from guest_percentage_in_doubles [OF d(3) t(3) [symmetric] refl] u e'
  have r2: "calculateGuestAttendancePercentage_js (series 3 3) ''X'' 1 = 100"
    by simp
  from d t a x u e r0 r1 r2 show ?thesis by simp
qed

subsection \<open>The certificate\<close>

text \<open>
  The certificate endpoint issues the document exactly when the guest is found, has
  attended a workshop, and has a percentage of at least 1.
\<close>

lemma certificate_gate:
  "(\<exists>doc. postCertificate usr guestId guestName st = Ok 200 doc) \<longleftrightarrow>
     authorize [''admin''] usr \<and> truthy_str guestId \<and> truthy_str guestName \<and>
     getGuestById st (str_of guestId) (Some (u_id usr)) \<noteq> None \<and>
     getGuestAttendance st (str_of guestId) \<noteq> [] \<and>
     1 \<le> calculateGuestAttendancePercentage st (str_of guestId) (u_id usr)"
  by (auto simp: postCertificate_def split: option.splits)

text \<open>
  C8. The handler's second check, \<^verbatim>\<open>percentage < 1\<close>, is commented
  \<^verbatim>\<open>At least attended one workshop\<close>, but it refuses a guest who has attended one
  workshop of an owner with 101 workshops: the guest has one attendance row and is told
  \<^verbatim>\<open>Guest has not attended any workshops\<close>. With 100 workshops, or with
  one of two (50 percent, not eligible by the 70 percent rule), the certificate is issued.
\<close>

theorem certificate_one_of_many:
  "length (filter (\<lambda>a. a_guest_id a = ''X'') (attendance (series 101 1))) = 1 \<and>
   length (getGuestAttendance (series 101 1) ''X'') = 1 \<and>
   postCertificate admin (Some ''X'') (Some ''Xena'') (series 101 1)
     = Err 403 ''Guest has not attended any workshops'' \<and>
   postCertificate admin (Some ''X'') (Some ''Xena'') (series 100 1) = Ok 200 ''Xena'' \<and>
   postCertificate admin (Some ''X'') (Some ''Xena'') (series 2 1) = Ok 200 ''Xena'' \<and>
   getGuestEligible admin ''X'' (series 2 1) = Ok 200 (False, 50)"
  by code_simp

section \<open>Properties of deletion\<close>

lemma ref_integrity_iff:
  "ref_integrity st \<longleftrightarrow>
     (\<forall>a\<in>set (attendance st). (\<exists>w\<in>set (workshops st). w_id w = a_workshop_id a) \<and>
                                (\<exists>g\<in>set (guests st). g_id g = a_guest_id a)) \<and>
     (\<forall>v\<in>set (vip_access st). (\<exists>w\<in>set (workshops st). w_id w = v_workshop_id v) \<and>
                                (\<exists>g\<in>set (guests st). g_id g = v_guest_id v))"
  by (simp add: ref_integrity_def list_all_iff list_ex_iff)

text \<open>
  When foreign keys are enforced, a deletion keeps every reference valid: it removes the
  attendance rows of the deleted guest or workshop, and it is refused when a VIP grant
  refers to it.
\<close>

lemma deleteGuest_keeps_integrity:
  assumes "foreign_keys st" "ref_integrity st" "deleteGuest st ident = Inr st'"
  shows "ref_integrity st'"
proof -
  from assms(1,3) have novip: "\<forall>v\<in>set (vip_access st). v_guest_id v \<noteq> ident"
    and st': "st' = st\<lparr>guests := filter (\<lambda>g. g_id g \<noteq> ident) (guests st),
                        attendance := filter (\<lambda>a. a_guest_id a \<noteq> ident) (attendance st)\<rparr>"
    by (auto simp: deleteGuest_def list_ex_iff split: if_splits)
  from assms(2) novip show ?thesis
    unfolding ref_integrity_iff st' by fastforce
qed

lemma deleteWorkshop_keeps_integrity:
  assumes "foreign_keys st" "ref_integrity st" "deleteWorkshop st ident = Inr st'"
  shows "ref_integrity st'"
proof -
  from assms(1,3) have novip: "\<forall>v\<in>set (vip_access st). v_workshop_id v \<noteq> ident"
    and st': "st' = st\<lparr>workshops := filter (\<lambda>w. w_id w \<noteq> ident) (workshops st),
                        attendance := filter (\<lambda>a. a_workshop_id a \<noteq> ident) (attendance st)\<rparr>"
    by (auto simp: deleteWorkshop_def list_ex_iff split: if_splits)
  from assms(2) novip show ?thesis
    unfolding ref_integrity_iff st' by fastforce
qed

lemma delGuest_keeps_integrity:
  assumes "foreign_keys st" "ref_integrity st" "delGuest usr ident st = (res, st')"
  shows "ref_integrity st'"
  using assms deleteGuest_keeps_integrity [of st ident st']
  by (auto simp: delGuest_def split: if_splits option.splits sum.splits)

lemma delWorkshop_keeps_integrity:
  assumes "foreign_keys st" "ref_integrity st" "delWorkshop usr ident st = (res, st')"
  shows "ref_integrity st'"
  using assms deleteWorkshop_keeps_integrity [of st ident st']
  by (auto simp: delWorkshop_def split: if_splits option.splits sum.splits)

text \<open>
  C3. The store \<^const>\<open>demoYB\<close> holds guest Y, VIP workshop B, Y's attendance row at B and
  Y's grant for B, and every reference in it is valid. On the connection as
  \<^verbatim>\<open>database.js\<close> opens it (foreign keys not enforced), deleting Y, or deleting B, is
  answered 204 and removes the guest or workshop row alone: the attendance row and the
  grant stay and refer to a missing row. With foreign keys enforced the attendance rows
  would cascade, but the vip_access table declares no ON DELETE CASCADE, so both
  deletions are refused with 500 and remove nothing.
\<close>

theorem delete_leaves_dangling_rows:
  "ref_integrity demoYB \<and>
   delGuest admin ''Y'' demoYB = (Ok 204 (), demoYB\<lparr>guests := [gX, gZ]\<rparr>) \<and>
   \<not> ref_integrity (demoYB\<lparr>guests := [gX, gZ]\<rparr>) \<and>
   delWorkshop admin ''B'' demoYB = (Ok 204 (), demoYB\<lparr>workshops := [wsA, wsC]\<rparr>) \<and>
   \<not> ref_integrity (demoYB\<lparr>workshops := [wsA, wsC]\<rparr>) \<and>
   delGuest admin ''Y'' (demoYB\<lparr>foreign_keys := True\<rparr>)
     = (Err 500 ''Failed to delete guest'', demoYB\<lparr>foreign_keys := True\<rparr>) \<and>
   delWorkshop admin ''B'' (demoYB\<lparr>foreign_keys := True\<rparr>)
     = (Err 500 ''Failed to delete workshop'', demoYB\<lparr>foreign_keys := True\<rparr>)"
  by code_simp

section \<open>Properties of the capacity check\<close>

lemma attendees_length:
  "length (getWorkshopAttendees st w)
     = length (concat (map (\<lambda>g. filter (\<lambda>a. a_guest_id a = g_id g \<and> a_workshop_id a = w)
                                   (attendance st)) (guests st)))"
  by (simp add: getWorkshopAttendees_def length_concat comp_def)

lemma length_concat_filter_snoc:
  "length (concat (map (\<lambda>g. filter (\<lambda>a. P a g) (as @ [r])) gs))
     = length (concat (map (\<lambda>g. filter (\<lambda>a. P a g) as) gs)) + length (filter (P r) gs)"
  by (induction gs) auto

lemma attendees_after_insert:
  "length (getWorkshopAttendees (st\<lparr>attendance := attendance st @ [r]\<rparr>) w)
     = length (getWorkshopAttendees st w) +
       (if a_workshop_id r = w
        then length (filter (\<lambda>g. g_id g = a_guest_id r) (guests st)) else 0)"
proof -
  let ?P = "\<lambda>a g. a_guest_id a = g_id g \<and> a_workshop_id a = w"
  have "filter (?P r) (guests st)
          = (if a_workshop_id r = w then filter (\<lambda>g. g_id g = a_guest_id r) (guests st) else [])"
    by (auto simp: eq_commute [of "a_guest_id r"])
  then have "length (filter (?P r) (guests st))
          = (if a_workshop_id r = w
             then length (filter (\<lambda>g. g_id g = a_guest_id r) (guests st)) else 0)"
    by simp
  moreover have "length (getWorkshopAttendees (st\<lparr>attendance := attendance st @ [r]\<rparr>) w)
     = length (getWorkshopAttendees st w) + length (filter (?P r) (guests st))"
    unfolding attendees_length
    using length_concat_filter_snoc [where P = ?P and as = "attendance st" and r = r
        and gs = "guests st"]
    by simp
  ultimately show ?thesis by simp
qed

lemma find_Some_set: "find P xs = Some x \<Longrightarrow> x \<in> set xs \<and> P x"
  by (induction xs) (auto split: if_splits)

lemma one_row_per_key:
  assumes "distinct (map f xs)" "x \<in> set xs"
  shows "length (filter (\<lambda>y. f y = f x) xs) = 1"
proof -
  from assms(2) have "x \<in> set (filter (\<lambda>y. f y = f x) xs)" by simp
  then have "length (filter (\<lambda>y. f y = f x) xs) \<noteq> 0"
    by (metis length_0_conv empty_iff list.set(1))
  moreover have "length (filter (\<lambda>y. f y = f x) xs) \<le> 1"
    by (rule distinct_map_filter_le1 [OF assms(1)])
  ultimately show ?thesis by arith
qed

lemma same_key_same_row:
  assumes "distinct (map f xs)" "x \<in> set xs" "y \<in> set xs" "f x = f y"
  shows "x = y"
  using assms by (meson distinct_map inj_on_eq_iff)

lemma find_by_key:
  assumes "distinct (map f xs)" "x \<in> set xs" "Q x"
  shows "find (\<lambda>y. f y = f x \<and> Q y) xs = Some x"
  using assms
proof (induction xs)
  case Nil
  then show ?case by simp
next
  case (Cons y ys)
  then show ?case by (auto simp: image_iff)
qed


lemma guest_found_once:
  assumes "distinct (map g_id (guests st))" "getGuestById st ident userId = Some guest"
  shows "length (filter (\<lambda>g. g_id g = ident) (guests st)) = 1"
proof -
  from find_Some_set [OF assms(2) [unfolded getGuestById_def]]
  have "guest \<in> set (guests st)" "g_id guest = ident" by simp_all
  with one_row_per_key [OF assms(1), of guest] show ?thesis by simp
qed

lemma workshop_found_is_row:
  assumes "distinct (map w_id (workshops st))" "w \<in> set (workshops st)"
    and "getWorkshopById st (w_id w) userId = Some w'"
  shows "w' = w"
proof -
  from find_Some_set [OF assms(3) [unfolded getWorkshopById_def]]
  have "w' \<in> set (workshops st)" "w_id w' = w_id w" by simp_all
  with assms(1,2) show ?thesis
    using same_key_same_row [where f = w_id and xs = "workshops st" and x = w' and y = w]
    by simp
qed

lemma postAttendance_capacity_exceeded:
  assumes "authorize [''admin'', ''scanner''] usr"
    and "truthy_str (b_guestId body)" "truthy_str (b_workshopId body)"
    and "getGuestById st (str_of (b_guestId body)) (scope_of usr) = Some guest"
    and "getWorkshopById st (str_of (b_workshopId body)) (scope_of usr) = Some workshop"
    and "g_is_vip guest \<noteq> 0" "w_is_vip workshop \<noteq> 0"
    and "w_max_capacity workshop = Some k" "k \<noteq> 0"
    and "k \<le> of_nat (length (getWorkshopAttendees st (str_of (b_workshopId body))))"
  shows "postAttendance e usr body st = (Err 403 ''Workshop has reached maximum capacity'', st)"
  using assms
  by (simp add: postAttendance_def Let_def js_or_def w_isVip_def g_isVip_def w_maxCapacity_def
      truthy_num_def num_of_def)

text \<open>
  A check-in to a VIP workshop with capacity \<^term>\<open>k\<close> is admitted only while the attendee
  count is below \<^term>\<open>k\<close>, so no check-in takes the attendee count to \<^term>\<open>k + 1\<close> or
  beyond (for a whole \<^term>\<open>k\<close>: beyond \<^term>\<open>k\<close>).
\<close>

lemma postAttendance_keeps_capacity:
  assumes dw: "distinct (map w_id (workshops st))" and dg: "distinct (map g_id (guests st))"
    and w: "w \<in> set (workshops st)" "w_is_vip w \<noteq> 0" "w_max_capacity w = Some k" "k \<noteq> 0"
    and call: "postAttendance e usr body st = (res, st')"
    and le: "of_nat (length (getWorkshopAttendees st (w_id w))) < k + 1"
  shows "of_nat (length (getWorkshopAttendees st' (w_id w))) < k + 1"
proof (cases res)
  case (Err c m)
  with call postAttendance_Err have "st' = st" by blast
  with le show ?thesis by simp
next
  case (Ok c r)
  note ok = call [unfolded Ok]
  from postAttendance_Ok [OF ok]
  have st': "st' = st\<lparr>attendance := attendance st @ [r]\<rparr>"
    and r: "a_guest_id r = str_of (b_guestId body)" "a_workshop_id r = str_of (b_workshopId body)"
    by simp_all
  from postAttendance_Ok_gates [OF ok] obtain guest workshop where
    g: "getGuestById st (str_of (b_guestId body)) (scope_of usr) = Some guest"
    and f: "getWorkshopById st (str_of (b_workshopId body)) (scope_of usr) = Some workshop"
    and cap: "\<not> (w_is_vip workshop \<noteq> 0 \<and> truthy_num (w_max_capacity workshop) \<and>
               num_of (w_max_capacity workshop)
                 \<le> of_nat (length (getWorkshopAttendees st (str_of (b_workshopId body)))))"
    by blast
  show ?thesis
  proof (cases "a_workshop_id r = w_id w")
    case False
    then show ?thesis using le by (simp add: st' attendees_after_insert)
  next
    case True
    with f r have "workshop = w"
      using workshop_found_is_row [OF dw w(1)] by simp
    with cap w True r have "of_nat (length (getWorkshopAttendees st (w_id w))) < k"
      by (simp add: truthy_num_def num_of_def)
    moreover have "length (filter (\<lambda>g. g_id g = a_guest_id r) (guests st)) = 1"
      using guest_found_once [OF dg g] r by simp
    ultimately show ?thesis using True by (simp add: st' attendees_after_insert)
  qed
qed

lemma attendees_eq_rows:
  assumes dg: "distinct (map g_id (guests st))"
    and every: "list_all (\<lambda>a. list_ex (\<lambda>g. g_id g = a_guest_id a) (guests st)) (attendance st)"
  shows "length (getWorkshopAttendees st w)
           = length (filter (\<lambda>a. a_workshop_id a = w) (attendance st))"
proof -
  have one: "length (filter (\<lambda>g. a_guest_id a = g_id g \<and> a_workshop_id a = w) (guests st))
               = (if a_workshop_id a = w then 1 else 0)"
    if a: "a \<in> set (attendance st)" for a
  proof (cases "a_workshop_id a = w")
    case False
    then show ?thesis by simp
  next
    case True
    from every a obtain g where g: "g \<in> set (guests st)" "g_id g = a_guest_id a"
      by (auto simp: list_all_iff list_ex_iff)
    have "filter (\<lambda>g. a_guest_id a = g_id g \<and> a_workshop_id a = w) (guests st)
            = filter (\<lambda>y. g_id y = g_id g) (guests st)"
      using True g(2) by (auto intro: filter_cong)
    with one_row_per_key [OF dg g(1)] True show ?thesis by simp
  qed
  have "length (getWorkshopAttendees st w)
          = length (concat (map (\<lambda>a. filter (\<lambda>g. a_guest_id a = g_id g \<and> a_workshop_id a = w)
                (guests st)) (attendance st)))"
    unfolding attendees_length
    by (rule length_concat_filter_swap [where P = "\<lambda>g a. a_guest_id a = g_id g \<and> a_workshop_id a = w"])
  also have "\<dots> = sum_list (map (\<lambda>a. if a_workshop_id a = w then 1 else 0) (attendance st))"
    using one by (simp add: length_concat comp_def cong: map_cong)
  also have "\<dots> = length (filter (\<lambda>a. a_workshop_id a = w) (attendance st))"
    by (rule sum_list_indicator)
  finally show ?thesis .
qed


lemma reachable_crowd3: "reachable crowd3"
proof -
  have "reachable fresh"
    unfolding fresh_def by (rule reachable.start)
  then have "reachable (snd (postWorkshops envA admin openBody fresh))"
    by (rule reachable.post_workshops) (rule prod.collapse [symmetric])
  then have "reachable (snd (postWorkshops envB admin vipBody
                (snd (postWorkshops envA admin openBody fresh))))"
    by (rule reachable.post_workshops) (rule prod.collapse [symmetric])
  then have "reachable built"
    unfolding built_def by (rule reachable.post_guests) (rule prod.collapse [symmetric])
  then have "reachable crowd1"
    unfolding crowd1_def by (rule reachable.post_guests) (rule prod.collapse [symmetric])
  then have "reachable crowd2"
    unfolding crowd2_def by (rule reachable.post_attendance) (rule prod.collapse [symmetric])
  then show ?thesis
    unfolding crowd3_def by (rule reachable.del_guest) (rule prod.collapse [symmetric])
qed

text \<open>
  C4. The store \<^const>\<open>crowd1\<close> is built through the endpoints from the empty tables, on
  the connection as \<^verbatim>\<open>database.js\<close> opens it: the open workshop A, the VIP workshop B
  of capacity 1, and the VIP guests Y and Z. Y checks in to B (201), which fills it. The
  administrator deletes Y (204); the delete does not cascade, so Y's attendance row
  stays, but the capacity check counts the join of attendance with guests and no longer
  sees it. Z's check-in to B is then answered 201, not with the capacity error, and B,
  of capacity 1, holds two attendance rows.
\<close>

theorem capacity_exceeded_after_delete:
  "reachable crowd3 \<and> foreign_keys crowd3 = False \<and> attendance crowd1 = [] \<and>
   getWorkshopById crowd3 ''B'' None = Some wsB \<and>
   w_is_vip wsB = 1 \<and> w_max_capacity wsB = Some 1 \<and>
   postAttendance env1 scanner (scan ''Y'' ''B'') crowd1
     = (Ok 201 (row ''r1'' ''Y'' ''B'' ''09:00''\<lparr>a_created_by := Some 2\<rparr>), crowd2) \<and>
   delGuest admin ''Y'' crowd2 = (Ok 204 (), crowd3) \<and>
   guests crowd3 = [gZ] \<and>
   length (filter (\<lambda>a. a_workshop_id a = ''B'') (attendance crowd3)) = 1 \<and>
   length (getWorkshopAttendees crowd3 ''B'') = 0 \<and>
   postAttendance env2 scanner (scan ''Z'' ''B'') crowd3
     = (Ok 201 (row ''r2'' ''Z'' ''B'' ''09:05''\<lparr>a_created_by := Some 2\<rparr>), crowd4) \<and>
   length (filter (\<lambda>a. a_workshop_id a = ''B'') (attendance crowd4)) = 2"
proof -
  have run: "foreign_keys crowd3 = False \<and> attendance crowd1 = [] \<and>
   getWorkshopById crowd3 ''B'' None = Some wsB \<and>
   w_is_vip wsB = 1 \<and> w_max_capacity wsB = Some 1 \<and>
   postAttendance env1 scanner (scan ''Y'' ''B'') crowd1
     = (Ok 201 (row ''r1'' ''Y'' ''B'' ''09:00''\<lparr>a_created_by := Some 2\<rparr>), crowd2) \<and>
   delGuest admin ''Y'' crowd2 = (Ok 204 (), crowd3) \<and>
   guests crowd3 = [gZ] \<and>
   length (filter (\<lambda>a. a_workshop_id a = ''B'') (attendance crowd3)) = 1 \<and>
   length (getWorkshopAttendees crowd3 ''B'') = 0 \<and>
   postAttendance env2 scanner (scan ''Z'' ''B'') crowd3
     = (Ok 201 (row ''r2'' ''Z'' ''B'' ''09:05''\<lparr>a_created_by := Some 2\<rparr>), crowd4) \<and>
   length (filter (\<lambda>a. a_workshop_id a = ''B'') (attendance crowd4)) = 2"
    by code_simp
  with reachable_crowd3 show ?thesis by (rule conjI)
qed

text \<open>
  A capacity that is not a whole number passes the creation check
  (\<^verbatim>\<open>!maxCapacity || maxCapacity > 31\<close>) and is stored as it is: the VIP workshop H is
  created with capacity 1.5, and both Y and Z are checked in, since 1 >= 1.5 is false.
\<close>

lemma fractional_capacity_admits_two:
  "fst (postWorkshops envH admin halfBody crowd1)
     = Ok 201 \<lparr>w_id = ''H'', w_name = ''Studio'', w_description = None,
                w_date = ''2025-05-05'', w_location = ''Loft'', w_user_id = Some 1,
                w_is_vip = 1, w_max_capacity = Some (3 / 2)\<rparr> \<and>
   fst (postAttendance env1 scanner (scan ''Y'' ''H'') half1)
     = Ok 201 (row ''r1'' ''Y'' ''H'' ''09:00''\<lparr>a_created_by := Some 2\<rparr>) \<and>
   fst (postAttendance env2 scanner (scan ''Z'' ''H'') half2)
     = Ok 201 (row ''r2'' ''Z'' ''H'' ''09:05''\<lparr>a_created_by := Some 2\<rparr>) \<and>
   length (filter (\<lambda>a. a_workshop_id a = ''H'') (attendance half3)) = 2"
  by code_simp

section \<open>Reachable stores\<close>

text \<open>What each mutating endpoint does to the store.\<close>

lemma distinct_map_snoc:
  "distinct (map f (xs @ [x])) \<longleftrightarrow> distinct (map f xs) \<and> f x \<notin> f ` set xs"
  by auto

lemma postWorkshops_Ok:
  assumes "postWorkshops e usr body st = (Ok c w, st')"
  shows "c = 201 \<and> st' = st\<lparr>workshops := workshops st @ [w]\<rparr> \<and>
         w_id w \<notin> w_id ` set (workshops st) \<and>
         w_is_vip w = (if wb_isVip body then 1 else 0) \<and>
         w_max_capacity w = (if wb_isVip body then wb_maxCapacity body else None) \<and>
         (if wb_isVip body
          then truthy_num (wb_maxCapacity body) \<and> num_of (wb_maxCapacity body) \<le> 31
          else True)"
  using assms
  by (auto simp: postWorkshops_def createWorkshop_def Let_def list_ex_iff image_iff
      split: if_splits sum.splits)

lemma postWorkshops_Err:
  assumes "postWorkshops e usr body st = (Err c m, st')"
  shows "st' = st"
  using assms
  by (auto simp: postWorkshops_def split: if_splits sum.splits)

lemma putWorkshop_step:
  assumes "putWorkshop usr ident body st = (res, st')"
  shows "st' = st \<or>
         (\<exists>f. st' = st\<lparr>workshops := map f (workshops st)\<rparr> \<and>
              (\<forall>w. w_id (f w) = w_id w \<and> w_is_vip (f w) = w_is_vip w \<and>
                   w_max_capacity (f w) = w_max_capacity w \<and> w_user_id (f w) = w_user_id w))"
proof -
  let ?f = "\<lambda>w. if w_id w = ident
              then w\<lparr>w_name := str_of (wb_name body), w_description := wb_description body,
                     w_date := str_of (wb_date body), w_location := str_of (wb_location body)\<rparr>
              else w"
  from assms have "st' = st \<or> st' = st\<lparr>workshops := map ?f (workshops st)\<rparr>"
    by (auto simp: putWorkshop_def updateWorkshop_def split: if_splits option.splits sum.splits)
  moreover have "\<forall>w. w_id (?f w) = w_id w \<and> w_is_vip (?f w) = w_is_vip w \<and>
                   w_max_capacity (?f w) = w_max_capacity w \<and> w_user_id (?f w) = w_user_id w"
    by simp
  ultimately show ?thesis by blast
qed

lemma delWorkshop_step:
  assumes "delWorkshop usr ident st = (res, st')"
  shows "st' = st \<or>
         st' = st\<lparr>workshops := filter (\<lambda>w. w_id w \<noteq> ident) (workshops st)\<rparr> \<or>
         st' = st\<lparr>workshops := filter (\<lambda>w. w_id w \<noteq> ident) (workshops st),
                   attendance := filter (\<lambda>a. a_workshop_id a \<noteq> ident) (attendance st)\<rparr>"
  using assms
  by (auto simp: delWorkshop_def deleteWorkshop_def split: if_splits option.splits sum.splits)

lemma postGuests_Ok:
  assumes "postGuests e usr body st = (Ok c g, st')"
  shows "st' = st\<lparr>guests := guests st @ [g]\<rparr> \<and> g_id g \<notin> g_id ` set (guests st)"
  using assms
  by (auto simp: postGuests_def createGuest_def Let_def list_ex_iff image_iff
      split: if_splits sum.splits)

lemma postGuests_Err:
  assumes "postGuests e usr body st = (Err c m, st')"
  shows "st' = st"
  using assms
  by (auto simp: postGuests_def split: if_splits sum.splits)

lemma putGuest_step:
  assumes "putGuest usr ident body st = (res, st')"
  shows "st' = st \<or>
         (\<exists>f. st' = st\<lparr>guests := map f (guests st)\<rparr> \<and> (\<forall>g. g_id (f g) = g_id g))"
proof -
  let ?f = "\<lambda>g. if g_id g = ident
              then g\<lparr>g_name := str_of (gb_name body), g_email := str_of (gb_email body),
                     g_is_vip := (if gb_isVip body then 1 else 0)\<rparr>
              else g"
  from assms have "st' = st \<or> st' = st\<lparr>guests := map ?f (guests st)\<rparr>"
    by (auto simp: putGuest_def updateGuest_def split: if_splits option.splits sum.splits)
  moreover have "\<forall>g. g_id (?f g) = g_id g" by simp
  ultimately show ?thesis by blast
qed

lemma delGuest_step:
  assumes "delGuest usr ident st = (res, st')"
  shows "st' = st \<or>
         st' = st\<lparr>guests := filter (\<lambda>g. g_id g \<noteq> ident) (guests st)\<rparr> \<or>
         st' = st\<lparr>guests := filter (\<lambda>g. g_id g \<noteq> ident) (guests st),
                   attendance := filter (\<lambda>a. a_guest_id a \<noteq> ident) (attendance st)\<rparr>"
  using assms
  by (auto simp: delGuest_def deleteGuest_def split: if_splits option.splits sum.splits)

lemma postAttendance_Ok_new:
  assumes "postAttendance e usr body st = (Ok c r, st')"
  shows "a_id r \<notin> a_id ` set (attendance st) \<and>
         (a_workshop_id r, a_guest_id r)
           \<notin> (\<lambda>a. (a_workshop_id a, a_guest_id a)) ` set (attendance st)"
  using assms
  by (auto simp: postAttendance_def createAttendance_def Let_def list_ex_iff image_iff
      split: if_splits option.splits sum.splits)

lemma delAttendance_step:
  assumes "delAttendance usr ident st = (res, st')"
  shows "st' = st \<or> st' = st\<lparr>attendance := filter (\<lambda>a. a_id a \<noteq> ident) (attendance st)\<rparr>"
  using assms by (auto simp: delAttendance_def split: if_splits)

lemma postVipAccess_Ok_new:
  assumes "postVipAccess e usr ident guestId st = (Ok c u, st')"
  shows "new_id e \<notin> v_id ` set (vip_access st) \<and>
         (str_of guestId, ident)
           \<notin> (\<lambda>v. (v_guest_id v, v_workshop_id v)) ` set (vip_access st)"
  using assms
  by (auto simp: postVipAccess_def addVipAccess_def Let_def list_ex_iff image_iff
      split: if_splits option.splits sum.splits)

lemma delVipAccess_step:
  assumes "delVipAccess usr ident guestId st = (res, st')"
  shows "st' = st"
  using assms
  by (auto simp: delVipAccess_def w_isVip_def truthy_num_def split: if_splits option.splits)

lemma capacity_ok_iff:
  "capacity_ok st \<longleftrightarrow>
     (\<forall>w\<in>set (workshops st).
        (w_is_vip w = 0 \<longrightarrow> w_max_capacity w = None) \<and>
        (w_is_vip w \<noteq> 0 \<longrightarrow> w_is_vip w = 1 \<and> truthy_num (w_max_capacity w) \<and>
                               num_of (w_max_capacity w) \<le> 31))"
  by (auto simp: capacity_ok_def list_all_iff)

text \<open>
  Every reachable store satisfies the PRIMARY KEY and UNIQUE constraints of the schema,
  and in it only VIP workshops have a capacity.
\<close>

lemma reachable_invariant:
  assumes "reachable st"
  shows "schema_ok st \<and> capacity_ok st"
  using assms
proof (induction rule: reachable.induct)
  case (start fk)
  show ?case by (simp add: schema_ok_def capacity_ok_def)
next
  case (post_workshops st e usr wb wr st')
  show ?case
  proof (cases wr)
    case (Ok c w)
    from postWorkshops_Ok [OF post_workshops.hyps(2) [unfolded Ok]] post_workshops.IH
    show ?thesis by (auto simp: schema_ok_def capacity_ok_iff split: if_splits)
  next
    case (Err c m)
    from postWorkshops_Err [OF post_workshops.hyps(2) [unfolded Err]] post_workshops.IH
    show ?thesis by simp
  qed
next
  case (put_workshop st usr ident wb ur st')
  from putWorkshop_step [OF put_workshop.hyps(2)] put_workshop.IH show ?case
    by (auto simp: schema_ok_def capacity_ok_iff comp_def)
next
  case (del_workshop st usr ident ur st')
  from delWorkshop_step [OF del_workshop.hyps(2)] del_workshop.IH show ?case
    by (auto simp: schema_ok_def capacity_ok_iff distinct_map_filter)
next
  case (post_guests st e usr gb gr st')
  show ?case
  proof (cases gr)
    case (Ok c g)
    from postGuests_Ok [OF post_guests.hyps(2) [unfolded Ok]] post_guests.IH
    show ?thesis by (auto simp: schema_ok_def capacity_ok_iff)
  next
    case (Err c m)
    from postGuests_Err [OF post_guests.hyps(2) [unfolded Err]] post_guests.IH
    show ?thesis by simp
  qed
next
  case (put_guest st usr ident gb ur st')
  from putGuest_step [OF put_guest.hyps(2)] put_guest.IH show ?case
    by (auto simp: schema_ok_def capacity_ok_iff comp_def)
next
  case (del_guest st usr ident ur st')
  from delGuest_step [OF del_guest.hyps(2)] del_guest.IH show ?case
    by (auto simp: schema_ok_def capacity_ok_iff distinct_map_filter)
next
  case (post_attendance st e usr ab ar st')
  show ?case
  proof (cases ar)
    case (Ok c r)
    note ok = post_attendance.hyps(2) [unfolded Ok]
    from postAttendance_Ok [OF ok] postAttendance_Ok_new [OF ok] post_attendance.IH
    show ?thesis by (auto simp: schema_ok_def capacity_ok_iff)
  next
    case (Err c m)
    from postAttendance_Err [OF post_attendance.hyps(2) [unfolded Err]] post_attendance.IH
    show ?thesis by simp
  qed
next
  case (del_attendance st usr ident ur st')
  from delAttendance_step [OF del_attendance.hyps(2)] del_attendance.IH show ?case
    by (auto simp: schema_ok_def capacity_ok_iff distinct_map_filter)
next
  case (post_vip_access st e usr ident guestId ur st')
  show ?case
  proof (cases ur)
    case (Ok c u)
    note ok = post_vip_access.hyps(2) [unfolded Ok]
    from postVipAccess_Ok [OF ok] postVipAccess_Ok_new [OF ok] post_vip_access.IH
    show ?thesis by (auto simp: schema_ok_def capacity_ok_iff)
  next
    case (Err c m)
    from postVipAccess_Err [OF post_vip_access.hyps(2) [unfolded Err]] post_vip_access.IH
    show ?thesis by simp
  qed
next
  case (del_vip_access st usr ident guestId ur st')
  from delVipAccess_step [OF del_vip_access.hyps(2)] del_vip_access.IH show ?case
    by simp
qed


lemma reachable_built: "reachable built"
proof -
  have "reachable fresh"
    unfolding fresh_def by (rule reachable.start)
  then have "reachable (snd (postWorkshops envA admin openBody fresh))"
    by (rule reachable.post_workshops) (rule prod.collapse [symmetric])
  then have "reachable (snd (postWorkshops envB admin vipBody
                (snd (postWorkshops envA admin openBody fresh))))"
    by (rule reachable.post_workshops) (rule prod.collapse [symmetric])
  then show ?thesis
    unfolding built_def by (rule reachable.post_guests) (rule prod.collapse [symmetric])
qed

text \<open>
  C10. A workshop created with a falsy \<^verbatim>\<open>isVip\<close> is stored with \<^verbatim>\<open>is_vip = 0\<close> and a
  null capacity, whatever capacity the request carries. The update endpoint leaves the
  id, \<^verbatim>\<open>is_vip\<close> and \<^verbatim>\<open>max_capacity\<close> of every workshop as they were. Hence in every
  reachable store a workshop with a capacity is VIP, and the capacity check of the
  check-in endpoint covers it: whenever a check-in to a workshop with capacity
  \<^term>\<open>k\<close> is answered 201 in a reachable store, the workshop had fewer than \<^term>\<open>k\<close>
  attendees.
\<close>

theorem capacity_only_on_vip:
  "(postWorkshops e usr body st = (Ok c w, st') \<and> \<not> wb_isVip body \<longrightarrow>
      w_is_vip w = 0 \<and> w_max_capacity w = None \<and> workshops st' = workshops st @ [w]) \<and>
   (putWorkshop usr2 ident body2 st2 = (res2, st2') \<longrightarrow>
      map w_id (workshops st2') = map w_id (workshops st2) \<and>
      map w_is_vip (workshops st2') = map w_is_vip (workshops st2) \<and>
      map w_max_capacity (workshops st2') = map w_max_capacity (workshops st2)) \<and>
   (reachable st3 \<longrightarrow>
      (\<forall>w\<in>set (workshops st3). w_max_capacity w \<noteq> None \<longrightarrow> w_is_vip w \<noteq> 0)) \<and>
   (reachable st4 \<and> postAttendance e4 usr4 body4 st4 = (Ok c4 r, st4') \<and>
    w4 \<in> set (workshops st4) \<and> w_id w4 = a_workshop_id r \<and> w_max_capacity w4 = Some k \<longrightarrow>
      of_nat (length (getWorkshopAttendees st4 (w_id w4))) < k)"
proof (intro conjI impI)
  assume "postWorkshops e usr body st = (Ok c w, st') \<and> \<not> wb_isVip body"
  with postWorkshops_Ok [of e usr body st c w st']
  show "w_is_vip w = 0" "w_max_capacity w = None" "workshops st' = workshops st @ [w]"
    by simp_all
next
  assume "putWorkshop usr2 ident body2 st2 = (res2, st2')"
  from putWorkshop_step [OF this]
  show "map w_id (workshops st2') = map w_id (workshops st2)"
    "map w_is_vip (workshops st2') = map w_is_vip (workshops st2)"
    "map w_max_capacity (workshops st2') = map w_max_capacity (workshops st2)"
    by (auto simp: comp_def)
next
  assume "reachable st3"
  from reachable_invariant [OF this]
  show "\<forall>w\<in>set (workshops st3). w_max_capacity w \<noteq> None \<longrightarrow> w_is_vip w \<noteq> 0"
    by (auto simp: capacity_ok_iff)
next
  assume h: "reachable st4 \<and> postAttendance e4 usr4 body4 st4 = (Ok c4 r, st4') \<and>
    w4 \<in> set (workshops st4) \<and> w_id w4 = a_workshop_id r \<and> w_max_capacity w4 = Some k"
  then have ok: "postAttendance e4 usr4 body4 st4 = (Ok c4 r, st4')" by simp
  from h reachable_invariant [of st4]
  have dw: "distinct (map w_id (workshops st4))" and cap: "capacity_ok st4"
    by (simp_all add: schema_ok_def)
  from cap h have vip: "w_is_vip w4 \<noteq> 0" "k \<noteq> 0"
    by (auto simp: capacity_ok_iff truthy_num_def)
  from postAttendance_Ok [OF ok] h
  have wid: "str_of (b_workshopId body4) = w_id w4" by simp
  from postAttendance_Ok_gates [OF ok] obtain guest workshop where
    f: "getWorkshopById st4 (str_of (b_workshopId body4)) (scope_of usr4) = Some workshop"
    and gate: "\<not> (w_is_vip workshop \<noteq> 0 \<and> truthy_num (w_max_capacity workshop) \<and>
               num_of (w_max_capacity workshop)
                 \<le> of_nat (length (getWorkshopAttendees st4 (str_of (b_workshopId body4)))))"
    by blast
  from f wid h have "workshop = w4"
    using workshop_found_is_row [OF dw, of w4 "scope_of usr4" workshop] by simp
  with gate vip h wid show "of_nat (length (getWorkshopAttendees st4 (w_id w4))) < k"
    by (simp add: truthy_num_def num_of_def)
qed

theorem capacity_only_on_vip_witness:
  "postWorkshops envA admin openBody fresh = (Ok 201 wsA, fresh\<lparr>workshops := [wsA]\<rparr>) \<and>
   \<not> wb_isVip openBody \<and> wb_maxCapacity openBody = Some 5 \<and> w_max_capacity wsA = None \<and>
   putWorkshop admin ''B'' renameBody built
     = (Ok 200 (), built\<lparr>workshops := [wsA, wsB\<lparr>w_name := ''Salon'',
          w_description := Some ''Renamed'', w_date := ''2025-05-09'',
          w_location := ''Annex''\<rparr>]\<rparr>) \<and>
   map w_max_capacity (workshops built) = [None, Some 1] \<and>
   reachable built \<and> workshops built = [wsA, wsB] \<and>
   postAttendance env1 scanner (scan ''Y'' ''B'') built
     = (Ok 201 (row ''r1'' ''Y'' ''B'' ''09:00''\<lparr>a_created_by := Some 2\<rparr>),
        built\<lparr>attendance := [row ''r1'' ''Y'' ''B'' ''09:00''\<lparr>a_created_by := Some 2\<rparr>]\<rparr>) \<and>
   of_nat (length (getWorkshopAttendees built ''B'')) < (1::rat)"
proof -
  have mk: "postWorkshops envA admin openBody fresh = (Ok 201 wsA, fresh\<lparr>workshops := [wsA]\<rparr>)"
    "\<not> wb_isVip openBody" "wb_maxCapacity openBody = Some 5"
    by code_simp+
  have put: "putWorkshop admin ''B'' renameBody built
     = (Ok 200 (), built\<lparr>workshops := [wsA, wsB\<lparr>w_name := ''Salon'',
          w_description := Some ''Renamed'', w_date := ''2025-05-09'',
          w_location := ''Annex''\<rparr>]\<rparr>)"
    by code_simp
  have ws: "workshops built = [wsA, wsB]"
    by code_simp
  have scan: "postAttendance env1 scanner (scan ''Y'' ''B'') built
     = (Ok 201 (row ''r1'' ''Y'' ''B'' ''09:00''\<lparr>a_created_by := Some 2\<rparr>),
        built\<lparr>attendance := [row ''r1'' ''Y'' ''B'' ''09:00''\<lparr>a_created_by := Some 2\<rparr>]\<rparr>)"
    by code_simp
  have b: "wsB \<in> set (workshops built)" "w_id wsB = ''B''" "w_max_capacity wsB = Some 1"
    "a_workshop_id (row ''r1'' ''Y'' ''B'' ''09:00''\<lparr>a_created_by := Some 2\<rparr>) = ''B''"
    by (simp_all add: ws wsB_def row_def)
  have c1: "w_max_capacity wsA = None"
    using capacity_only_on_vip [where e = envA and usr = admin and body = openBody
        and st = fresh and c = 201 and w = wsA and st' = "fresh\<lparr>workshops := [wsA]\<rparr>"] mk
    by simp
  have c2: "map w_max_capacity (workshops built) = [None, Some 1]"
    using capacity_only_on_vip [where ?usr2.0 = admin and ident = "''B''" and ?body2.0 = renameBody
        and ?st2.0 = built and ?res2.0 = "Ok 200 ()"
        and ?st2' = "built\<lparr>workshops := [wsA, wsB\<lparr>w_name := ''Salon'',
          w_description := Some ''Renamed'', w_date := ''2025-05-09'',
          w_location := ''Annex''\<rparr>]\<rparr>"] put
    by (simp add: wsA_def wsB_def)
  have c4: "of_nat (length (getWorkshopAttendees built ''B'')) < (1::rat)"
    using capacity_only_on_vip [where ?st4.0 = built and ?e4.0 = env1 and ?usr4.0 = scanner
        and ?body4.0 = "scan ''Y'' ''B''" and ?c4.0 = 201
        and r = "row ''r1'' ''Y'' ''B'' ''09:00''\<lparr>a_created_by := Some 2\<rparr>"
        and ?w4.0 = wsB and k = 1] reachable_built scan b
    by simp
  from mk put ws scan c1 c2 c4 reachable_built show ?thesis by simp
qed

section \<open>Properties of the scanner page\<close>

lemma lookups_qr_attendance_update [simp]:
  "getGuestByQRCode (st\<lparr>attendance := xs\<rparr>) q u = getGuestByQRCode st q u"
  by (simp add: getGuestByQRCode_def)

lemma in_concat_map: "x \<in> set xs \<Longrightarrow> y \<in> set (f x) \<Longrightarrow> y \<in> set (concat (map f xs))"
  by auto

lemma visible_row:
  assumes a: "a \<in> set (attendance st)"
    and w: "w \<in> set (workshops st)" "w_id w = a_workshop_id a" "in_scope u (w_user_id w)"
    and g: "g \<in> set (guests st)" "g_id g = a_guest_id a"
  shows "a \<in> set (getAllAttendance st u)"
proof -
  let ?G = "\<lambda>a w. filter (\<lambda>g. a_guest_id a = g_id g \<and>
                (if truthy_id u then w_user_id w = u \<or> g_user_id g = u else True)) (guests st)"
  let ?W = "\<lambda>a. filter (\<lambda>w. a_workshop_id a = w_id w) (workshops st)"
  let ?rows = "\<lambda>a. concat (map (\<lambda>w. map (\<lambda>g. a) (?G a w)) (?W a))"
  from w(3) g have "g \<in> set (?G a w)"
    by (simp add: in_scope_def)
  then have "a \<in> set (map (\<lambda>g. a) (?G a w))"
    by (cases "?G a w") simp_all
  moreover from w have "w \<in> set (?W a)" by simp
  ultimately have "a \<in> set (?rows a)"
    by (rule in_concat_map [rotated])
  with a have "a \<in> set (concat (map ?rows (attendance st)))"
    by (rule in_concat_map)
  then show ?thesis
    unfolding getAllAttendance_def by simp
qed

lemma utils_getGuestByQRCode_Some:
  assumes "utils_getGuestByQRCode usr qr st = Some guest"
  shows "authorize [''admin'', ''scanner''] usr \<and>
         (\<exists>g. getGuestByQRCode st qr (scope_of usr) = Some g \<and> g \<in> set (guests st) \<and>
              sg_id guest = g_id g \<and> sg_name guest = g_name g)"
  using assms
  by (auto simp: utils_getGuestByQRCode_def api_getGuestByQRCode_def getGuestsQr_def
      getGuestByQRCode_def dest: find_Some_set
      split: if_splits option.splits response.splits fetched.splits)

lemma api_getWorkshopById_Resolved:
  assumes "api_getWorkshopById usr wid st = Resolved workshop"
  shows "workshop \<in> set (workshops st) \<and> w_id workshop = wid \<and>
         in_scope (scope_of usr) (w_user_id workshop)"
  using assms
  by (auto simp: api_getWorkshopById_def getWorkshop_def getWorkshopById_def
      dest: find_Some_set split: if_splits option.splits response.splits)

lemma find_map_None_iff:
  "find P (map f xs) = None \<longleftrightarrow> (\<forall>x\<in>set xs. \<not> P (f x))"
  by (simp add: find_None_iff)

lemma scan_existing:
  assumes qr: "take 6 qr = ''guest-''"
    and guest: "utils_getGuestByQRCode usr qr st = Some guest"
    and ws: "api_getWorkshopById usr wid st = Resolved workshop"
    and ex: "getAttendanceRecord st (sg_id guest) wid = Some a"
  shows "onScanSuccess e usr wid qr st
           = (ScanOk (sg_name guest @ '' already checked in to this workshop''), st)"
proof -
  from utils_getGuestByQRCode_Some [OF guest] obtain g where
    auth: "authorize [''admin'', ''scanner''] usr"
    and g: "g \<in> set (guests st)" "sg_id guest = g_id g"
    by blast
  from find_Some_set [OF ex [unfolded getAttendanceRecord_def]]
  have a: "a \<in> set (attendance st)" "a_guest_id a = sg_id guest" "a_workshop_id a = wid"
    by simp_all
  from api_getWorkshopById_Resolved [OF ws] a g
  have "a \<in> set (getAllAttendance st (scope_of usr))"
    by (intro visible_row [where w = workshop and g = g]) simp_all
  with a have "find (\<lambda>record. sr_guestId record = sg_id guest \<and> sr_workshopId record = wid)
      (map (\<lambda>record. \<lparr>sr_id = a_id record, sr_guestId = a_guest_id record,
              sr_workshopId = a_workshop_id record, sr_timestamp = a_timestamp record,
              sr_workshop_id = None\<rparr>) (getAllAttendance st (scope_of usr))) \<noteq> None"
    by (auto simp: find_map_None_iff)
  with qr guest ws auth show ?thesis
    by (auto simp: onScanSuccess_def api_fetchAttendance_def getAttendanceList_def
        w_isVip_def w_maxCapacity_def truthy_num_def)
qed

lemma scan_wrote:
  assumes scan: "onScanSuccess e usr wid qr st = (res, st1)" and wrote: "st1 \<noteq> st"
  shows "\<exists>guest workshop c r.
           take 6 qr = ''guest-'' \<and> utils_getGuestByQRCode usr qr st = Some guest \<and>
           api_getWorkshopById usr wid st = Resolved workshop \<and>
           postAttendance e usr \<lparr>b_guestId = Some (sg_id guest), b_workshopId = Some wid,
                                 b_timestamp = Some (now e)\<rparr> st = (Ok c r, st1) \<and>
           res = ScanOk (sg_name guest @ '' checked in successfully'')"
proof -
  have qr: "take 6 qr = ''guest-''"
    using scan wrote by (cases "take 6 qr = ''guest-''") (auto simp: onScanSuccess_def)
  obtain guest where guest: "utils_getGuestByQRCode usr qr st = Some guest"
    using scan wrote qr by (cases "utils_getGuestByQRCode usr qr st") (auto simp: onScanSuccess_def)
  obtain workshop where ws: "api_getWorkshopById usr wid st = Resolved workshop"
    using scan wrote qr guest
    by (cases "api_getWorkshopById usr wid st") (auto simp: onScanSuccess_def)
  obtain recs where recs: "api_fetchAttendance usr st = Resolved recs"
    using scan wrote qr guest ws
    by (cases "api_fetchAttendance usr st") (auto simp: onScanSuccess_def)
  let ?body = "\<lparr>b_guestId = Some (sg_id guest), b_workshopId = Some wid,
                b_timestamp = Some (now e)\<rparr>"
  have none: "find (\<lambda>record. sr_guestId record = sg_id guest \<and> sr_workshopId record = wid) recs
                = None"
    using scan wrote qr guest ws recs
    by (cases "find (\<lambda>record. sr_guestId record = sg_id guest \<and> sr_workshopId record = wid) recs")
       (auto simp: onScanSuccess_def w_isVip_def w_maxCapacity_def truthy_num_def)
  obtain pres pst where post: "postAttendance e usr ?body st = (pres, pst)"
    by (cases "postAttendance e usr ?body st") blast
  have unfolded: "onScanSuccess e usr wid qr st
      = (case api_recordAttendance e usr (sg_id guest) wid st of
           (Thrown m, st') \<Rightarrow>
             (ScanFail (if m = ''Non-VIP guest cannot attend VIP workshops''
                        then ''This guest does not have VIP access for this workshop''
                        else ''Error processing QR code''), st')
         | (Resolved r, st') \<Rightarrow> (ScanOk (sg_name guest @ '' checked in successfully''), st'))"
    using qr guest ws recs none
    by (simp add: onScanSuccess_def w_isVip_def w_maxCapacity_def truthy_num_def)
  show ?thesis
  proof (cases pres)
    case (Err c m)
    with post postAttendance_Err have "pst = st" by blast
    with Err post scan wrote unfolded show ?thesis
      by (simp add: api_recordAttendance_def split: if_splits)
  next
    case (Ok c r)
    with post scan unfolded have "st1 = pst"
      "res = ScanOk (sg_name guest @ '' checked in successfully'')"
      by (simp_all add: api_recordAttendance_def)
    with Ok post qr guest ws show ?thesis by blast
  qed
qed

lemma scan_twice:
  assumes first: "onScanSuccess e usr wid qr st = (res, st1)" and wrote: "st1 \<noteq> st"
  shows "\<exists>guest. utils_getGuestByQRCode usr qr st = Some guest \<and>
           res = ScanOk (sg_name guest @ '' checked in successfully'') \<and>
           onScanSuccess e' usr wid qr st1
             = (ScanOk (sg_name guest @ '' already checked in to this workshop''), st1) \<and>
           length (filter (\<lambda>a. a_guest_id a = sg_id guest \<and> a_workshop_id a = wid)
                     (attendance st1)) = 1"
proof -
  from scan_wrote [OF first wrote] obtain guest workshop c r where
    qr: "take 6 qr = ''guest-''"
    and guest: "utils_getGuestByQRCode usr qr st = Some guest"
    and ws: "api_getWorkshopById usr wid st = Resolved workshop"
    and post: "postAttendance e usr \<lparr>b_guestId = Some (sg_id guest), b_workshopId = Some wid,
                                 b_timestamp = Some (now e)\<rparr> st = (Ok c r, st1)"
    and res: "res = ScanOk (sg_name guest @ '' checked in successfully'')"
    by blast
  let ?P = "\<lambda>a. a_guest_id a = sg_id guest \<and> a_workshop_id a = wid"
  from postAttendance_Ok [OF post]
  have st1: "st1 = st\<lparr>attendance := attendance st @ [r]\<rparr>"
    and r: "?P r" and none: "find ?P (attendance st) = None"
    by (simp_all add: getAttendanceRecord_def str_of_def)
  have "getGuestsQr usr qr st1 = getGuestsQr usr qr st"
    by (simp add: st1 getGuestsQr_def)
  with guest have guest1: "utils_getGuestByQRCode usr qr st1 = Some guest"
    by (simp add: utils_getGuestByQRCode_def api_getGuestByQRCode_def)
  have "getWorkshop usr wid st1 = getWorkshop usr wid st"
    by (simp add: st1 getWorkshop_def)
  with ws have ws1: "api_getWorkshopById usr wid st1 = Resolved workshop"
    by (simp add: api_getWorkshopById_def)
  have ex1: "getAttendanceRecord st1 (sg_id guest) wid = Some r"
    using find_append_new [OF none r] by (simp add: getAttendanceRecord_def st1)
  have count: "length (filter ?P (attendance st1)) = 1"
    using find_None_filter [OF none] r by (simp add: st1)
  from scan_existing [OF qr guest1 ws1 ex1, of e'] guest res count show ?thesis by blast
qed

text \<open>
  The page's own VIP test and capacity test read \<^verbatim>\<open>workshop.isVip\<close> and
  \<^verbatim>\<open>workshop.maxCapacity\<close>, which are undefined, so neither ever rejects a scan: both
  decisions are left to the check-in endpoint.
\<close>

lemma scan_own_checks_dead:
  "fst (onScanSuccess e usr wid qr st) \<noteq> ScanFail ''Workshop has reached maximum capacity'' \<and>
   fst (onScanSuccess e usr wid qr st)
     \<noteq> ScanFail ''This is a VIP workshop. Guest does not have VIP access.''"
proof (cases "take 6 qr = ''guest-''")
  case False
  then show ?thesis by (simp add: onScanSuccess_def)
next
  case qr: True
  show ?thesis
  proof (cases "utils_getGuestByQRCode usr qr st")
    case None
    with qr show ?thesis by (simp add: onScanSuccess_def)
  next
    case (Some guest)
    show ?thesis
    proof (cases "api_getWorkshopById usr wid st")
      case (Thrown m)
      with qr Some show ?thesis by (simp add: onScanSuccess_def)
    next
      case (Resolved workshop)
      show ?thesis
      proof (cases "api_fetchAttendance usr st")
        case (Thrown m)
        with qr Some Resolved show ?thesis by (simp add: onScanSuccess_def)
      next
        case recs: (Resolved recs)
        obtain f st' where post: "api_recordAttendance e usr (sg_id guest) wid st = (f, st')"
          by (cases "api_recordAttendance e usr (sg_id guest) wid st") blast
        from qr Some Resolved recs post show ?thesis
          by (cases f)
             (simp_all add: onScanSuccess_def w_isVip_def w_maxCapacity_def truthy_num_def
                split: option.splits)
      qed
    qed
  qed
qed

text \<open>
  C1, as the code has it. When an attendance row for the pair exists, the check-in
  endpoint writes nothing and answers with an error status (400, 403, 404 or 409), never
  with a success; after a check-in answered 201, a second request of the same caller for
  the same pair is answered 409 \<^verbatim>\<open>Attendance already recorded\<close>, or 403 when the first
  check-in has filled a VIP workshop. The scan handler of the scanner page is what
  reports the repeat as a success: once it has resolved the guest and the workshop and
  a row for the pair exists, it shows \<^verbatim>\<open>already checked in\<close> and sends no check-in
  request; a scan that has written a row showed \<^verbatim>\<open>checked in successfully\<close>, and the
  same scan repeated shows \<^verbatim>\<open>already checked in\<close>. In both sequences the store then
  holds exactly one row for the pair.
\<close>

theorem repeated_check_in:
  "(getAttendanceRecord st (str_of (b_guestId body)) (str_of (b_workshopId body)) \<noteq> None \<longrightarrow>
      (\<exists>c m. postAttendance e usr body st = (Err c m, st) \<and> c \<in> {400, 403, 404, 409})) \<and>
   (postAttendance e usr body st = (Ok 201 r, st1) \<and>
    b_guestId body' = b_guestId body \<and> b_workshopId body' = b_workshopId body \<longrightarrow>
      (postAttendance e' usr body' st1 = (Err 409 ''Attendance already recorded'', st1) \<or>
       postAttendance e' usr body' st1
         = (Err 403 ''Workshop has reached maximum capacity'', st1)) \<and>
      length (filter (\<lambda>a. a_guest_id a = str_of (b_guestId body) \<and>
                           a_workshop_id a = str_of (b_workshopId body)) (attendance st1)) = 1) \<and>
   (take 6 qr = ''guest-'' \<and> utils_getGuestByQRCode usr qr st = Some guest \<and>
    api_getWorkshopById usr wid st = Resolved workshop \<and>
    getAttendanceRecord st (sg_id guest) wid \<noteq> None \<longrightarrow>
      onScanSuccess e usr wid qr st
        = (ScanOk (sg_name guest @ '' already checked in to this workshop''), st)) \<and>
   (onScanSuccess e usr wid qr st = (res, st2) \<and> st2 \<noteq> st \<longrightarrow>
      (\<exists>guest. utils_getGuestByQRCode usr qr st = Some guest \<and>
         res = ScanOk (sg_name guest @ '' checked in successfully'') \<and>
         onScanSuccess e' usr wid qr st2
           = (ScanOk (sg_name guest @ '' already checked in to this workshop''), st2) \<and>
         length (filter (\<lambda>a. a_guest_id a = sg_id guest \<and> a_workshop_id a = wid)
                   (attendance st2)) = 1))"
proof (intro conjI impI)
  assume "getAttendanceRecord st (str_of (b_guestId body)) (str_of (b_workshopId body)) \<noteq> None"
  then obtain a where
    "getAttendanceRecord st (str_of (b_guestId body)) (str_of (b_workshopId body)) = Some a"
    by blast
  then show "\<exists>c m. postAttendance e usr body st = (Err c m, st) \<and> c \<in> {400, 403, 404, 409}"
    by (rule postAttendance_existing)
next
  assume h: "postAttendance e usr body st = (Ok 201 r, st1) \<and>
    b_guestId body' = b_guestId body \<and> b_workshopId body' = b_workshopId body"
  from postAttendance_again [of e usr body st 201 r st1 body' e'] h
  show "postAttendance e' usr body' st1 = (Err 409 ''Attendance already recorded'', st1) \<or>
        postAttendance e' usr body' st1
          = (Err 403 ''Workshop has reached maximum capacity'', st1)"
    by blast
  from postAttendance_again [of e usr body st 201 r st1 body' e'] h
  show "length (filter (\<lambda>a. a_guest_id a = str_of (b_guestId body) \<and>
          a_workshop_id a = str_of (b_workshopId body)) (attendance st1)) = 1"
    by blast
next
  assume h: "take 6 qr = ''guest-'' \<and> utils_getGuestByQRCode usr qr st = Some guest \<and>
    api_getWorkshopById usr wid st = Resolved workshop \<and>
    getAttendanceRecord st (sg_id guest) wid \<noteq> None"
  then obtain a where "getAttendanceRecord st (sg_id guest) wid = Some a" by blast
  with h show "onScanSuccess e usr wid qr st
        = (ScanOk (sg_name guest @ '' already checked in to this workshop''), st)"
    by (intro scan_existing [where workshop = workshop and a = a]) simp_all
next
  assume "onScanSuccess e usr wid qr st = (res, st2) \<and> st2 \<noteq> st"
  then show "\<exists>guest. utils_getGuestByQRCode usr qr st = Some guest \<and>
         res = ScanOk (sg_name guest @ '' checked in successfully'') \<and>
         onScanSuccess e' usr wid qr st2
           = (ScanOk (sg_name guest @ '' already checked in to this workshop''), st2) \<and>
         length (filter (\<lambda>a. a_guest_id a = sg_id guest \<and> a_workshop_id a = wid)
                   (attendance st2)) = 1"
    using scan_twice [of e usr wid qr st res st2 e'] by simp
qed

theorem repeated_check_in_witness:
  "getAttendanceRecord demoXA ''X'' ''A'' \<noteq> None \<and>
   (\<exists>c m. postAttendance env2 admin (scan ''X'' ''A'') demoXA = (Err c m, demoXA) \<and>
           c \<in> {400, 403, 404, 409}) \<and>
   postAttendance env1 admin (scan ''X'' ''A'') demo
     = (Ok 201 (row ''r1'' ''X'' ''A'' ''09:00''), demoXA) \<and>
   length (filter (\<lambda>a. a_guest_id a = ''X'' \<and> a_workshop_id a = ''A'') (attendance demoXA)) = 1 \<and>
   utils_getGuestByQRCode admin ''guest-X'' demoXA
     = Some \<lparr>sg_id = ''X'', sg_name = ''Xena'', sg_isVip = False\<rparr> \<and>
   api_getWorkshopById admin ''A'' demoXA = Resolved wsA \<and>
   onScanSuccess env1 admin ''A'' ''guest-X'' demo
     = (ScanOk ''Xena checked in successfully'', demoXA) \<and> demoXA \<noteq> demo \<and>
   onScanSuccess env2 admin ''A'' ''guest-X'' demoXA
     = (ScanOk ''Xena already checked in to this workshop'', demoXA)"
proof -
  have ids: "str_of (b_guestId (scan ''X'' ''A'')) = ''X''"
    "str_of (b_workshopId (scan ''X'' ''A'')) = ''A''"
    by (simp_all add: scan_def str_of_def)
  have ex: "getAttendanceRecord demoXA ''X'' ''A'' \<noteq> None"
    by code_simp
  have run: "postAttendance env1 admin (scan ''X'' ''A'') demo
     = (Ok 201 (row ''r1'' ''X'' ''A'' ''09:00''), demoXA)"
    by code_simp
  have existing: "\<exists>c m. postAttendance env2 admin (scan ''X'' ''A'') demoXA = (Err c m, demoXA) \<and>
      c \<in> {400, 403, 404, 409}"
    using repeated_check_in
      [where st = demoXA and body = "scan ''X'' ''A''" and e = env2 and usr = admin] ex ids
    by simp
  have count: "length (filter (\<lambda>a. a_guest_id a = ''X'' \<and> a_workshop_id a = ''A'')
      (attendance demoXA)) = 1"
    using repeated_check_in
      [where st = demo and body = "scan ''X'' ''A''" and e = env1 and usr = admin
         and r = "row ''r1'' ''X'' ''A'' ''09:00''" and ?st1.0 = demoXA
         and body' = "scan ''X'' ''A''"] run ids
    by simp
  have page: "take 6 ''guest-X'' = ''guest-''"
    "utils_getGuestByQRCode admin ''guest-X'' demoXA
       = Some \<lparr>sg_id = ''X'', sg_name = ''Xena'', sg_isVip = False\<rparr>"
    "api_getWorkshopById admin ''A'' demoXA = Resolved wsA"
    by code_simp+
  have first: "onScanSuccess env1 admin ''A'' ''guest-X'' demo
     = (ScanOk ''Xena checked in successfully'', demoXA)" "demoXA \<noteq> demo"
    by code_simp+
  have again: "onScanSuccess env2 admin ''A'' ''guest-X'' demoXA
     = (ScanOk ''Xena already checked in to this workshop'', demoXA)"
    using repeated_check_in
      [where st = demoXA and qr = "''guest-X''" and usr = admin and wid = "''A''"
         and guest = "\<lparr>sg_id = ''X'', sg_name = ''Xena'', sg_isVip = False\<rparr>"
         and workshop = wsA and e = env2] page ex
    by simp
  from ex existing run count page first again show ?thesis by simp
qed

text \<open>
  The claim as stated fails: the first request to the endpoint is answered 201, the
  repeated one with the error status 409.
\<close>

theorem repeated_check_in_counterexample:
  "postAttendance env1 admin (scan ''X'' ''A'') demo
     = (Ok 201 (row ''r1'' ''X'' ''A'' ''09:00''), demoXA) \<and>
   postAttendance env2 admin (scan ''X'' ''A'') demoXA
     = (Err 409 ''Attendance already recorded'', demoXA)"
  by code_simp

end
